theory Spec2Isabelle
  imports Main "HOL-Library.Word"
begin

unbundle bit_operations_syntax

section \<open>Buffers and the runtime operations the program calls\<close>

text \<open>
  A \<open>Buffer\<close> is a sequence of bytes. The errors are the exceptions the program can
  raise: the two \<open>Error\<close>s thrown by \<open>parseGLB\<close> itself, and the \<open>RangeError\<close>,
  \<open>SyntaxError\<close> and \<open>TypeError\<close> raised by the runtime operations it calls.
\<close>

type_synonym byte = "8 word"
type_synonym Buffer = "byte list"

datatype error =
    MissingMagic       \<comment> \<open>\<open>Error('Invalid GLB file: missing glTF magic')\<close>\<close>
  | FirstChunkNotJSON  \<comment> \<open>\<open>Error('Invalid GLB file: first chunk is not JSON')\<close>\<close>
  | RangeError         \<comment> \<open>out-of-range \<open>readUInt32LE\<close>, misaligned typed-array length\<close>
  | SyntaxError        \<comment> \<open>\<open>JSON.parse\<close> on malformed text\<close>
  | TypeError          \<comment> \<open>property read on \<open>undefined\<close>\<close>

text \<open>
  \<open>buf.subarray(start, end)\<close> with non-negative integer bounds: both bounds are
  clamped to the length of the buffer, and an end before the start gives the empty
  range. It never raises.
\<close>

definition subarray :: "'a list \<Rightarrow> nat \<Rightarrow> nat \<Rightarrow> 'a list" where
  "subarray buf start stop =
     (let len = length buf;
          beginIndex = min start len;
          endIndex = min stop len
      in take (endIndex - beginIndex) (drop beginIndex buf))"

text \<open>
  \<open>buf.toString('ascii')\<close>: each byte is decoded as one character after its highest
  bit has been cleared (the runtime's documented behaviour for the \<open>'ascii'\<close> encoding).
\<close>

definition toString_ascii :: "Buffer \<Rightarrow> string" where
  "toString_ascii buf = map (\<lambda>b. char_of (unat (b AND 0x7F))) buf"

text \<open>
  \<open>buf.readUInt32LE(offset)\<close>: the four bytes at \<open>offset\<close>, least significant first;
  a \<open>RangeError\<close> unless all four lie inside the buffer.
\<close>

definition readUInt32LE :: "Buffer \<Rightarrow> nat \<Rightarrow> error + nat" where
  "readUInt32LE buf offset =
     (if offset + 4 \<le> length buf
      then Inr (unat (buf ! offset) + unat (buf ! (offset + 1)) * 2 ^ 8
                + unat (buf ! (offset + 2)) * 2 ^ 16 + unat (buf ! (offset + 3)) * 2 ^ 24)
      else Inl RangeError)"

section \<open>The container parser: \<open>parseGLB\<close>\<close>

text \<open>
  \<open>parseGLB\<close>, lines 28 to 66. The call \<open>JSON.parse(jsonData.toString('utf8'))\<close> is the
  parameter \<open>JSON_parse\<close>: it maps the bytes of the metadata chunk to the parsed document,
  or to \<open>None\<close> where \<open>JSON.parse\<close> raises its \<open>SyntaxError\<close>. The result is the pair
  \<open>{ gltfData, binaryBuffer }\<close>, with \<open>None\<close> for a \<open>null\<close> \<open>binaryBuffer\<close>.
\<close>

definition parseGLB :: "(Buffer \<Rightarrow> 'j option) \<Rightarrow> Buffer \<Rightarrow> error + ('j \<times> Buffer option)" where
  "parseGLB JSON_parse glbBuffer =
     (let magic = toString_ascii (subarray glbBuffer 0 4) in
      if magic \<noteq> ''glTF'' then Inl MissingMagic
      else (case readUInt32LE glbBuffer 8 of Inl e \<Rightarrow> Inl e | Inr totalLength \<Rightarrow>
      (let offset = 12 in
      (case readUInt32LE glbBuffer offset of Inl e \<Rightarrow> Inl e | Inr jsonChunkLength \<Rightarrow>
      (case readUInt32LE glbBuffer (offset + 4) of Inl e \<Rightarrow> Inl e | Inr jsonChunkType \<Rightarrow>
      if jsonChunkType \<noteq> 0x4e4f534a then Inl FirstChunkNotJSON
      else (let jsonData = subarray glbBuffer (offset + 8) (offset + 8 + jsonChunkLength) in
      (case JSON_parse jsonData of None \<Rightarrow> Inl SyntaxError | Some gltfData \<Rightarrow>
      (let offset = offset + (8 + jsonChunkLength) in
      if offset < totalLength
      then (case readUInt32LE glbBuffer offset of Inl e \<Rightarrow> Inl e | Inr binaryChunkLength \<Rightarrow>
           (case readUInt32LE glbBuffer (offset + 4) of Inl e \<Rightarrow> Inl e | Inr binaryChunkType \<Rightarrow>
           if binaryChunkType = 0x004e4942
           then Inr (gltfData, Some (subarray glbBuffer (offset + 8) (offset + 8 + binaryChunkLength)))
           else Inr (gltfData, None)))
      else Inr (gltfData, None)))))))))"

text \<open>
  A stand-in for \<open>JSON.parse\<close> at containers whose metadata chunk is the text \<open>{}\<close>: it
  accepts exactly that text, on which \<open>JSON.parse\<close> returns the empty object, and rejects
  every other text.
\<close>

definition JSON_parse_braces :: "Buffer \<Rightarrow> unit option" where
  "JSON_parse_braces bs = (if bs = [0x7B, 0x7D] then Some () else None)"

text \<open>
  Sample containers. Each starts with a 12-byte header (signature, version 2, total
  length); the chunk that follows has length 2, the tag \<open>JSON\<close> unless said otherwise,
  and the data \<open>{}\<close>.
\<close>

definition header_only :: Buffer where
  \<comment> \<open>the signature \<open>glTF\<close> and a header, no chunk\<close>
  "header_only = [0x67, 0x6C, 0x54, 0x46, 2,0,0,0, 12,0,0,0]"

definition high_bit_magic :: Buffer where
  \<comment> \<open>a well-formed container, except that its first byte is \<open>0xE7\<close> instead of \<open>0x67\<close>\<close>
  "high_bit_magic =
     [0xE7, 0x6C, 0x54, 0x46, 2,0,0,0, 22,0,0,0, 2,0,0,0, 0x4A,0x53,0x4F,0x4E, 0x7B, 0x7D]"

definition wrong_tag :: Buffer where
  \<comment> \<open>the first chunk is tagged \<open>JSOM\<close>\<close>
  "wrong_tag =
     [0x67, 0x6C, 0x54, 0x46, 2,0,0,0, 22,0,0,0, 2,0,0,0, 0x4A,0x53,0x4F,0x4D, 0x7B, 0x7D]"

definition cut_second_header :: Buffer where
  \<comment> \<open>total length 30, but the buffer ends 2 bytes into the second chunk header\<close>
  "cut_second_header =
     [0x67, 0x6C, 0x54, 0x46, 2,0,0,0, 30,0,0,0, 2,0,0,0, 0x4A,0x53,0x4F,0x4E, 0x7B, 0x7D,
      0xE8, 0x03]"

definition short_binary :: Buffer where
  \<comment> \<open>a second chunk with the binary tag (\<open>BIN\<close> and a zero byte) that declares 1000 bytes and holds one\<close>
  "short_binary =
     [0x67, 0x6C, 0x54, 0x46, 2,0,0,0, 31,0,0,0, 2,0,0,0, 0x4A,0x53,0x4F,0x4E, 0x7B, 0x7D,
      0xE8, 0x03, 0, 0, 0x42, 0x49, 0x4E, 0x00, 0xAB]"

definition zero_total :: Buffer where
  \<comment> \<open>declared total length 0\<close>
  "zero_total =
     [0x67, 0x6C, 0x54, 0x46, 2,0,0,0, 0,0,0,0, 2,0,0,0, 0x4A,0x53,0x4F,0x4E, 0x7B, 0x7D]"

definition small_total :: Buffer where
  \<comment> \<open>declared total length 7, and three bytes after the first chunk\<close>
  "small_total =
     [0x67, 0x6C, 0x54, 0x46, 2,0,0,0, 7,0,0,0, 2,0,0,0, 0x4A,0x53,0x4F,0x4E, 0x7B, 0x7D,
      1, 2, 3]"

section \<open>The accessor decoder: \<open>extractAccessorData\<close>\<close>

subsection \<open>The two lookup tables and the truncation limit\<close>

datatype TypedArray = Int8Array | Uint8Array | Int16Array | Uint16Array | Uint32Array | Float32Array

record componentTypeEntry =
  ct_name :: string
  ct_size :: nat
  ct_array :: TypedArray

text \<open>\<open>COMPONENT_TYPES[code]\<close>, lines 7 to 14; \<open>None\<close> is \<open>undefined\<close>.\<close>

definition COMPONENT_TYPES :: "int \<Rightarrow> componentTypeEntry option" where
  "COMPONENT_TYPES code =
     (if code = 5120 then Some \<lparr>ct_name = ''BYTE'', ct_size = 1, ct_array = Int8Array\<rparr>
      else if code = 5121 then Some \<lparr>ct_name = ''UNSIGNED_BYTE'', ct_size = 1, ct_array = Uint8Array\<rparr>
      else if code = 5122 then Some \<lparr>ct_name = ''SHORT'', ct_size = 2, ct_array = Int16Array\<rparr>
      else if code = 5123 then Some \<lparr>ct_name = ''UNSIGNED_SHORT'', ct_size = 2, ct_array = Uint16Array\<rparr>
      else if code = 5125 then Some \<lparr>ct_name = ''UNSIGNED_INT'', ct_size = 4, ct_array = Uint32Array\<rparr>
      else if code = 5126 then Some \<lparr>ct_name = ''FLOAT'', ct_size = 4, ct_array = Float32Array\<rparr>
      else None)"

text \<open>
  \<open>TYPE_SIZES[tag]\<close>, lines 16 to 24. \<open>None\<close> stands for every value that is not one
  of the seven numbers of the table; in the arithmetic of line 76 each of them gives
  \<open>NaN\<close>.
\<close>

definition TYPE_SIZES :: "string \<Rightarrow> nat option" where
  "TYPE_SIZES tag =
     (if tag = ''SCALAR'' then Some 1
      else if tag = ''VEC2'' then Some 2
      else if tag = ''VEC3'' then Some 3
      else if tag = ''VEC4'' then Some 4
      else if tag = ''MAT2'' then Some 4
      else if tag = ''MAT3'' then Some 9
      else if tag = ''MAT4'' then Some 16
      else None)"

definition TRUNCATE_LIMIT :: nat where
  "TRUNCATE_LIMIT = 20"

subsection \<open>Typed arrays\<close>

text \<open>
  A decoded number is an integer, or a 32-bit float kept as its IEEE 754 bit pattern
  (the conversion of that pattern to a double is exact, and no claim depends on it).
\<close>

datatype number = Integer int | Float32 "32 word"

definition BYTES_PER_ELEMENT :: "TypedArray \<Rightarrow> nat" where
  "BYTES_PER_ELEMENT a =
     (case a of Int8Array \<Rightarrow> 1 | Uint8Array \<Rightarrow> 1 | Int16Array \<Rightarrow> 2
      | Uint16Array \<Rightarrow> 2 | Uint32Array \<Rightarrow> 4 | Float32Array \<Rightarrow> 4)"

text \<open>The unsigned value of a little-endian byte sequence.\<close>

fun littleEndian :: "byte list \<Rightarrow> nat" where
  "littleEndian [] = 0"
| "littleEndian (b # bs) = unat b + 256 * littleEndian bs"

text \<open>One element of a typed array, from the bytes it occupies.\<close>

definition element :: "TypedArray \<Rightarrow> byte list \<Rightarrow> number" where
  "element a bs =
     (case a of
        Int8Array \<Rightarrow> Integer (sint (word_of_nat (littleEndian bs) :: 8 word))
      | Uint8Array \<Rightarrow> Integer (int (littleEndian bs))
      | Int16Array \<Rightarrow> Integer (sint (word_of_nat (littleEndian bs) :: 16 word))
      | Uint16Array \<Rightarrow> Integer (int (littleEndian bs))
      | Uint32Array \<Rightarrow> Integer (int (littleEndian bs))
      | Float32Array \<Rightarrow> Float32 (word_of_nat (littleEndian bs)))"

text \<open>
  \<open>Array.from(new A(arrayBuffer))\<close>: the constructor raises a \<open>RangeError\<close> when the
  byte length of \<open>arrayBuffer\<close> is not a multiple of the element width; otherwise element
  \<open>i\<close> is read from the bytes \<open>i * width\<close> up to \<open>i * width + width\<close>.
\<close>

definition newTypedArray :: "TypedArray \<Rightarrow> Buffer \<Rightarrow> error + number list" where
  "newTypedArray a arrayBuffer =
     (let width = BYTES_PER_ELEMENT a in
      if length arrayBuffer mod width \<noteq> 0 then Inl RangeError
      else Inr (map (\<lambda>i. element a (subarray arrayBuffer (i * width) (i * width + width)))
                  [0 ..< length arrayBuffer div width]))"

subsection \<open>Descriptors and results\<close>

text \<open>
  The fields the decoder reads of an accessor and of a buffer view (\<open>acc_type\<close> is
  \<open>accessor.type\<close>, \<open>bv_byteOffset\<close> is \<open>bufferView.byteOffset\<close>, and so on). Codes, counts and
  offsets are the integers of the scene description; an absent optional field is \<open>None\<close>.
  The bounds \<open>min\<close> and \<open>max\<close> are echoed and never inspected, so their type is a
  parameter.
\<close>

record 'j accessor =
  acc_componentType :: int
  acc_type :: string
  acc_count :: nat
  acc_byteOffset :: "nat option"
  acc_bufferView :: "nat option"
  acc_min :: "'j option"
  acc_max :: "'j option"

record bufferView =
  bv_byteOffset :: "nat option"

text \<open>
  A group of the output: a bare number for the scalar shape, a sequence of numbers
  otherwise.
\<close>

datatype group = Bare number | Group "number list"

text \<open>
  The object \<open>extractAccessorData\<close> returns. A field the object does not have (or has as
  \<open>undefined\<close>) is \<open>None\<close>.
\<close>

record 'j result =
  r_error :: "string option"
  r_type :: "string option"
  r_componentType :: "string option"
  r_count :: "nat option"
  r_min :: "'j option"
  r_max :: "'j option"
  r_values :: "group list option"
  r_truncatedValues :: "group list option"

definition emptyResult :: "'j result" where
  "emptyResult = \<lparr>r_error = None, r_type = None, r_componentType = None, r_count = None,
     r_min = None, r_max = None, r_values = None, r_truncatedValues = None\<rparr>"

subsection \<open>Number to string\<close>

text \<open>
  The template literal of line 73 converts the code to a string. For an integer of
  magnitude below \<open>10^21\<close> that is its decimal notation, with a minus sign when negative.
  For a larger magnitude the runtime prints an exponent notation (\<open>1e+21\<close>), which is
  not modelled: it is the parameter \<open>exponential\<close>.
\<close>

function toString_nat :: "nat \<Rightarrow> string" where
  "toString_nat n =
     (if n < 10 then [char_of (48 + n)]
      else toString_nat (n div 10) @ [char_of (48 + n mod 10)])"
  by pat_completeness auto
termination
  by (relation "measure id") auto

definition toString_int :: "(int \<Rightarrow> string) \<Rightarrow> int \<Rightarrow> string" where
  "toString_int exponential i =
     (if 10 ^ 21 \<le> \<bar>i\<bar> then exponential i
      else if i < 0 then ''-'' @ toString_nat (nat (- i))
      else toString_nat (nat i))"

subsection \<open>The decoder\<close>

text \<open>
  \<open>values.slice(start, end)\<close> on an array, with non-negative integer bounds: clamped as
  \<open>subarray\<close> is.
\<close>

definition slice_list :: "'a list \<Rightarrow> nat \<Rightarrow> nat \<Rightarrow> 'a list" where
  "slice_list xs start stop =
     (let len = length xs;
          k = min start len;
          final = min stop len
      in take (final - k) (drop k xs))"

text \<open>
  The grouping loop, lines 91 to 98, with the loop variable \<open>i\<close> and the array
  \<open>groupedValues\<close> as arguments. With \<open>typeSize\<close> undefined, \<open>i + typeSize\<close> is \<open>NaN\<close>:
  the slice \<open>values.slice(i, NaN)\<close> ends at 0, and the loop test \<open>NaN < values.length\<close>
  fails, so the loop ends after that iteration.
\<close>

partial_function (option) groupLoop ::
  "nat option \<Rightarrow> number list \<Rightarrow> nat \<Rightarrow> group list \<Rightarrow> group list option" where
  [code]: "groupLoop typeSize values i groupedValues =
     (if i < length values
      then (case typeSize of
              None \<Rightarrow> Some (groupedValues @ [Group (slice_list values i 0)])
            | Some n \<Rightarrow>
                groupLoop typeSize values (i + n)
                  (groupedValues @ [if n = 1 then Bare (values ! i)
                                    else Group (slice_list values i (i + n))]))
      else Some groupedValues)"

text \<open>
  The byte window, lines 76 to 81, as functions of the inputs. \<open>elementSize\<close> and
  \<open>byteLength\<close> are \<open>None\<close> when they are \<open>NaN\<close>, that is when \<open>typeSize\<close> is undefined;
  \<open>subarray\<close> takes a \<open>NaN\<close> end as 0.
\<close>

definition elementSize :: "componentTypeEntry \<Rightarrow> nat option \<Rightarrow> nat option" where
  "elementSize componentType typeSize = map_option (\<lambda>t. ct_size componentType * t) typeSize"

definition byteOffset :: "'j accessor \<Rightarrow> bufferView \<Rightarrow> nat" where
  "byteOffset accessor bufferView =
     (case bv_byteOffset bufferView of None \<Rightarrow> 0 | Some v \<Rightarrow> v)
     + (case acc_byteOffset accessor of None \<Rightarrow> 0 | Some v \<Rightarrow> v)"

definition byteLength :: "componentTypeEntry \<Rightarrow> nat option \<Rightarrow> 'j accessor \<Rightarrow> nat option" where
  "byteLength componentType typeSize accessor =
     map_option (\<lambda>e. acc_count accessor * e) (elementSize componentType typeSize)"

definition rawBytes ::
  "componentTypeEntry \<Rightarrow> nat option \<Rightarrow> 'j accessor \<Rightarrow> bufferView \<Rightarrow> Buffer \<Rightarrow> Buffer" where
  "rawBytes componentType typeSize accessor bufferView binaryBuffer =
     subarray binaryBuffer (byteOffset accessor bufferView)
       (case byteLength componentType typeSize accessor of
          None \<Rightarrow> 0
        | Some l \<Rightarrow> byteOffset accessor bufferView + l)"

text \<open>
  The typed array and the grouping, lines 84 to 98. \<open>arrayBuffer\<close> is a copy of the bytes
  of \<open>rawBytes\<close>. The outer \<open>option\<close> is \<open>None\<close> when the grouping loop does not end.
\<close>

definition groupValues ::
  "componentTypeEntry \<Rightarrow> nat option \<Rightarrow> Buffer \<Rightarrow> (error + group list) option" where
  "groupValues componentType typeSize arrayBuffer =
     (case newTypedArray (ct_array componentType) arrayBuffer of
        Inl e \<Rightarrow> Some (Inl e)
      | Inr values \<Rightarrow> map_option Inr (groupLoop typeSize values 0 []))"

text \<open>
  \<open>extractAccessorData\<close>, lines 68 to 120. The buffer view is \<open>None\<close> when the caller
  passes \<open>undefined\<close>: reading its \<open>byteOffset\<close> at line 77 then raises a \<open>TypeError\<close>.
  The first argument is the runtime's exponent notation of large numbers, used by the
  template literal of line 73.
\<close>

definition extractAccessorData ::
  "(int \<Rightarrow> string) \<Rightarrow> 'j accessor \<Rightarrow> bufferView option \<Rightarrow> Buffer
   \<Rightarrow> (error + 'j result) option" where
  "extractAccessorData exponential accessor bufferView binaryBuffer =
     (let componentType = COMPONENT_TYPES (acc_componentType accessor);
          typeSize = TYPE_SIZES (acc_type accessor) in
      case componentType of
        None \<Rightarrow>
          Some (Inr (emptyResult\<lparr>r_error :=
            Some (''Unknown component type: ''
                  @ toString_int exponential (acc_componentType accessor))\<rparr>))
      | Some componentType \<Rightarrow>
         (case bufferView of
            None \<Rightarrow> Some (Inl TypeError)
          | Some bufferView \<Rightarrow>
             (case groupValues componentType typeSize
                     (rawBytes componentType typeSize accessor bufferView binaryBuffer) of
                None \<Rightarrow> None
              | Some (Inl e) \<Rightarrow> Some (Inl e)
              | Some (Inr groupedValues) \<Rightarrow>
                 (let wasTruncated = (length groupedValues > TRUNCATE_LIMIT);
                      finalValues = (if wasTruncated
                                     then slice_list groupedValues 0 TRUNCATE_LIMIT
                                     else groupedValues);
                      result = emptyResult\<lparr>
                        r_type := Some (acc_type accessor),
                        r_componentType := Some (ct_name componentType),
                        r_count := Some (acc_count accessor),
                        r_min := acc_min accessor,
                        r_max := acc_max accessor\<rparr> in
                  Some (Inr (if wasTruncated
                             then result\<lparr>r_truncatedValues := Some finalValues\<rparr>
                             else result\<lparr>r_values := Some finalValues\<rparr>))))))"

subsection \<open>The caller's loop over the attributes of a primitive\<close>


subsection \<open>Notions used to state the properties of the decoder\<close>

text \<open>
  Component \<open>j\<close> of an accessor: the number read from the \<open>width\<close> bytes of the buffer
  that start \<open>j * width\<close> bytes after the offset \<open>start\<close>.
\<close>

definition component :: "TypedArray \<Rightarrow> nat \<Rightarrow> Buffer \<Rightarrow> nat \<Rightarrow> nat \<Rightarrow> number" where
  "component a width buf start j =
     element a (subarray buf (start + j * width) (start + j * width + width))"

text \<open>The numbers of a group, in order.\<close>

fun components :: "group \<Rightarrow> number list" where
  "components (Bare x) = [x]"
| "components (Group xs) = xs"

text \<open>
  A list cut into consecutive pieces of \<open>n\<close> elements, the last one shorter when the
  length is not a multiple of \<open>n\<close>; and the group made of one piece.
\<close>

function chunk :: "nat \<Rightarrow> 'a list \<Rightarrow> 'a list list" where
  "chunk n xs = (if n = 0 \<or> xs = [] then [] else take n xs # chunk n (drop n xs))"
  by pat_completeness auto
termination
  by (relation "measure (\<lambda>(n, xs). length xs)") auto

definition toGroup :: "nat \<Rightarrow> number list \<Rightarrow> group" where
  "toGroup n piece = (if n = 1 then Bare (hd piece) else Group piece)"




subsection \<open>Sample accessors, buffer views and buffers\<close>

text \<open>
  Two signed 16-bit pairs read from offset 3 of a 12-byte buffer, and the same buffer cut
  after 9 bytes.
\<close>

definition short_vec2 :: "unit accessor" where
  "short_vec2 = \<lparr>acc_componentType = 5122, acc_type = ''VEC2'', acc_count = 2,
     acc_byteOffset = Some 2, acc_bufferView = Some 0, acc_min = None, acc_max = None\<rparr>"

definition view_at_1 :: bufferView where
  "view_at_1 = \<lparr>bv_byteOffset = Some 1\<rparr>"

definition twelve_bytes :: Buffer where
  "twelve_bytes = [0xEE, 0xEE, 0xEE, 1, 0, 0xFF, 0xFF, 3, 0, 4, 0, 0xEE]"

definition nine_bytes :: Buffer where
  "nine_bytes = [0xEE, 0xEE, 0xEE, 1, 0, 0xFF, 0xFF, 3, 0]"

text \<open>
  One 32-bit float at accessor offset 8: in a buffer view at offset 100 of a buffer that
  holds the float 1.0 in its bytes 108 to 111, and in a buffer view without offset of an
  11-byte buffer.
\<close>

definition float_scalar :: "unit accessor" where
  "float_scalar = \<lparr>acc_componentType = 5126, acc_type = ''SCALAR'', acc_count = 1,
     acc_byteOffset = Some 8, acc_bufferView = Some 0, acc_min = None, acc_max = None\<rparr>"

definition view_at_100 :: bufferView where
  "view_at_100 = \<lparr>bv_byteOffset = Some 100\<rparr>"

definition float_one_at_108 :: Buffer where
  "float_one_at_108 = replicate 108 0xEE @ [0, 0, 0x80, 0x3F]"

definition plain_view :: bufferView where
  "plain_view = \<lparr>bv_byteOffset = None\<rparr>"

definition eleven_bytes :: Buffer where
  "eleven_bytes = [0xEE, 0xEE, 0xEE, 0xEE, 0xEE, 0xEE, 0xEE, 0xEE, 0, 0, 0x80]"

text \<open>\<open>n\<close> pairs of signed bytes from the start of a 42-byte buffer.\<close>

definition byte_vec2 :: "nat \<Rightarrow> unit accessor" where
  "byte_vec2 n = \<lparr>acc_componentType = 5120, acc_type = ''VEC2'', acc_count = n,
     acc_byteOffset = None, acc_bufferView = Some 0, acc_min = None, acc_max = None\<rparr>"

definition forty_two_bytes :: Buffer where
  "forty_two_bytes = [1, 255, 2, 254, 3, 253, 4, 252, 5, 251, 6, 250, 7, 249,
     8, 248, 9, 247, 10, 246, 11, 245, 12, 244, 13, 243, 14, 242,
     15, 241, 16, 240, 17, 239, 18, 238, 19, 237, 20, 236, 21, 235]"

text \<open>
  A stand-in for the exponent notation of the runtime: it is right at \<open>10^21\<close>, and the
  sample codes below are far smaller.
\<close>

definition exponential_1e21 :: "int \<Rightarrow> string" where
  "exponential_1e21 i = ''1e+21''"


definition float_vec5 :: "unit accessor" where
  "float_vec5 = \<lparr>acc_componentType = 5126, acc_type = ''VEC5'', acc_count = 3,
     acc_byteOffset = None, acc_bufferView = Some 0, acc_min = None, acc_max = None\<rparr>"

section \<open>Properties of \<open>parseGLB\<close>\<close>

subsection \<open>The runtime operations\<close>

lemma subarray_take_drop: "subarray buf start (start + n) = take n (drop start buf)"
  by (cases "start \<le> length buf") (auto simp: subarray_def Let_def min_def)

lemma readUInt32LE_short: "length buf < offset + 4 \<Longrightarrow> readUInt32LE buf offset = Inl RangeError"
  by (simp add: readUInt32LE_def)

lemma readUInt32LE_error:
  "readUInt32LE buf offset = Inl e \<Longrightarrow> e = RangeError \<and> length buf < offset + 4"
  by (simp add: readUInt32LE_def split: if_splits)

lemma readUInt32LE_Inr: "readUInt32LE buf offset = Inr v \<Longrightarrow> offset + 4 \<le> length buf"
  by (simp add: readUInt32LE_def split: if_splits)

lemma readUInt32LE_ex: "offset + 4 \<le> length buf \<Longrightarrow> \<exists>v. readUInt32LE buf offset = Inr v"
  by (simp add: readUInt32LE_def)

lemma readUInt32LE_littleEndian:
  "offset + 4 \<le> length buf \<Longrightarrow>
   readUInt32LE buf offset
   = Inr (littleEndian [buf ! offset, buf ! (offset + 1), buf ! (offset + 2), buf ! (offset + 3)])"
  by (simp add: readUInt32LE_def)

lemma byte_bound: "unat (b :: byte) < 256"
  using unsigned_less [of b, where 'a = nat] by simp

lemma base256:
  "x < 256 \<Longrightarrow> (x + 256 * y = (n::nat)) \<longleftrightarrow> (x = n mod 256 \<and> y = n div 256)"
proof
  assume "x < 256" and "x + 256 * y = n"
  then show "x = n mod 256 \<and> y = n div 256" by auto
next
  assume "x = n mod 256 \<and> y = n div 256"
  then show "x + 256 * y = n" by simp
qed

text \<open>
  Comparing the 32-bit tag with \<open>0x4e4f534a\<close> is comparing its four bytes with
  \<open>J\<close>, \<open>S\<close>, \<open>O\<close>, \<open>N\<close>.
\<close>

lemma tag_JSON_bytes_nat:
  fixes a b c d :: nat
  assumes "a < 256" "b < 256" "c < 256" "d < 256"
  shows "a + b * 256 + c * 65536 + d * 16777216 = 1313821514
         \<longleftrightarrow> a = 74 \<and> b = 83 \<and> c = 79 \<and> d = 78"
proof -
  have "a + b * 256 + c * 65536 + d * 16777216 = a + 256 * (b + 256 * (c + 256 * d))"
    by simp
  then show ?thesis
    using assms by (simp only: base256) auto
qed

lemma tag_JSON_bytes:
  fixes a b c d :: byte
  shows "unat a + unat b * 2 ^ 8 + unat c * 2 ^ 16 + unat d * 2 ^ 24 = 0x4e4f534a
         \<longleftrightarrow> a = 0x4A \<and> b = 0x53 \<and> c = 0x4F \<and> d = 0x4E"
  using tag_JSON_bytes_nat [OF byte_bound [of a] byte_bound [of b] byte_bound [of c] byte_bound [of d]]
  by (simp add: word_unat_eq_iff)

lemmas char_eval = char_of_def bit_Suc_0_iff bit_0

lemmas parse_eval = parseGLB_def subarray_def toString_ascii_def readUInt32LE_def
  JSON_parse_braces_def char_eval

subsection \<open>The signature check\<close>

lemma parseGLB_MissingMagic_iff:
  "parseGLB JSON_parse buf = Inl MissingMagic
   \<longleftrightarrow> toString_ascii (subarray buf 0 4) \<noteq> ''glTF''"
  by (auto simp: parseGLB_def Let_def dest: readUInt32LE_error split: sum.splits option.splits)

text \<open>A buffer of fewer than four bytes fails the signature check.\<close>

lemma magic_short: "length buf < 4 \<Longrightarrow> toString_ascii (subarray buf 0 4) \<noteq> ''glTF''"
proof
  assume "length buf < 4" and "toString_ascii (subarray buf 0 4) = ''glTF''"
  then have "length (toString_ascii (subarray buf 0 4)) = 4" by simp
  with \<open>length buf < 4\<close> show False by (simp add: toString_ascii_def subarray_def)
qed

text \<open>A buffer that starts with the four bytes of the signature passes the check.\<close>

lemma magic_of_signature:
  "take 4 buf = [0x67, 0x6C, 0x54, 0x46] \<Longrightarrow> toString_ascii (subarray buf 0 4) = ''glTF''"
proof -
  assume t: "take 4 buf = [0x67, 0x6C, 0x54, 0x46]"
  then have "length (take 4 buf) = 4" by simp
  then have "4 \<le> length buf" by simp
  then have "subarray buf 0 4 = take 4 buf" by (simp add: subarray_def)
  with t show ?thesis by (simp add: toString_ascii_def char_eval)
qed

text \<open>
  The buffers that pass the signature check are those whose first four bytes are \<open>g\<close>,
  \<open>l\<close>, \<open>T\<close>, \<open>F\<close> once the highest bit of each is cleared.
\<close>

lemma char_of_byte_iff:
  "char_of (unat (x :: byte)) = c \<longleftrightarrow> unat x = of_char c"
proof
  assume "char_of (unat x) = c"
  then have "of_char (char_of (unat x)) = (of_char c :: nat)" by simp
  then show "unat x = of_char c"
    using byte_bound [of x] by simp
next
  assume "unat x = of_char c"
  then show "char_of (unat x) = c" by simp
qed

lemma magic_bytes:
  "toString_ascii (subarray buf 0 4) = ''glTF'' \<longleftrightarrow>
   4 \<le> length buf \<and> map (\<lambda>b. b AND 0x7F) (take 4 buf) = [0x67, 0x6C, 0x54, 0x46]"
proof (cases "4 \<le> length buf")
  case False
  then show ?thesis using magic_short [of buf] by simp
next
  case True
  then obtain a b c d rest where buf: "buf = a # b # c # d # rest"
    by (cases buf; cases "tl buf"; cases "tl (tl buf)"; cases "tl (tl (tl buf))") auto
  have eq: "unat y = n \<longleftrightarrow> y = of_nat n" if "n < 256" for y :: byte and n
    using that by (auto simp: word_unat_eq_iff unat_of_nat)
  show ?thesis
    unfolding buf by (simp add: toString_ascii_def subarray_def char_of_byte_iff eq)
qed

lemma parseGLB_MissingMagic_bytes:
  "parseGLB JSON_parse buf = Inl MissingMagic \<longleftrightarrow>
   length buf < 4 \<or> map (\<lambda>b. b AND 0x7F) (take 4 buf) \<noteq> [0x67, 0x6C, 0x54, 0x46]"
  unfolding parseGLB_MissingMagic_iff magic_bytes by auto

text \<open>
  C6. The claim: \<open>parseGLB\<close> fails with the signature error for every buffer whose first
  four bytes are not the signature \<open>glTF\<close>. The signature is compared after decoding with
  \<open>toString('ascii')\<close>, which clears the highest bit of every byte: the container
  \<open>high_bit_magic\<close> starts with the byte \<open>0xE7\<close>, not with \<open>0x67\<close>, and is parsed without
  any error.
\<close>

theorem parseGLB_accepts_high_bit_magic:
  "take 4 high_bit_magic \<noteq> [0x67, 0x6C, 0x54, 0x46] \<and>
   parseGLB JSON_parse_braces high_bit_magic = Inr ((), None)"
  by (simp add: high_bit_magic_def parse_eval)

subsection \<open>The first chunk\<close>

lemma parseGLB_short:
  assumes "toString_ascii (subarray buf 0 4) = ''glTF''" and "length buf < 20"
  shows "parseGLB JSON_parse buf = Inl RangeError"
proof (cases "readUInt32LE buf 8")
  case (Inl e)
  then show ?thesis using assms(1) readUInt32LE_error [OF Inl] by (simp add: parseGLB_def)
next
  case total: (Inr totalLength)
  show ?thesis
  proof (cases "readUInt32LE buf 12")
    case (Inl e)
    then show ?thesis
      using assms(1) total readUInt32LE_error [OF Inl] by (simp add: parseGLB_def)
  next
    case (Inr jsonChunkLength)
    moreover have "readUInt32LE buf 16 = Inl RangeError"
      using assms(2) by (simp add: readUInt32LE_short)
    ultimately show ?thesis using assms(1) total by (simp add: parseGLB_def)
  qed
qed

text \<open>\<open>parseGLB\<close> after the three header reads, for a buffer that holds them.\<close>

lemma parseGLB_unfold:
  assumes "toString_ascii (subarray buf 0 4) = ''glTF''"
    and "readUInt32LE buf 8 = Inr totalLength"
    and "readUInt32LE buf 12 = Inr jsonChunkLength"
    and "readUInt32LE buf 16 = Inr jsonChunkType"
  shows "parseGLB JSON_parse buf =
             (if jsonChunkType \<noteq> 0x4e4f534a then Inl FirstChunkNotJSON
              else case JSON_parse (subarray buf 20 (20 + jsonChunkLength)) of
                None \<Rightarrow> Inl SyntaxError
              | Some gltfData \<Rightarrow>
                  if 20 + jsonChunkLength < totalLength
                  then (case readUInt32LE buf (20 + jsonChunkLength) of
                          Inl e \<Rightarrow> Inl e
                        | Inr binaryChunkLength \<Rightarrow>
                           (case readUInt32LE buf (24 + jsonChunkLength) of
                              Inl e \<Rightarrow> Inl e
                            | Inr binaryChunkType \<Rightarrow>
                                if binaryChunkType = 0x004e4942
                                then Inr (gltfData, Some (subarray buf (28 + jsonChunkLength)
                                       (28 + jsonChunkLength + binaryChunkLength)))
                                else Inr (gltfData, None)))
                  else Inr (gltfData, None))"
  using assms
  by (simp add: parseGLB_def Let_def add.commute add.left_commute
           split: option.split sum.split)

lemma parseGLB_header_reads:
  assumes "20 \<le> length buf"
  obtains totalLength jsonChunkLength jsonChunkType where
    "readUInt32LE buf 8 = Inr totalLength" "readUInt32LE buf 12 = Inr jsonChunkLength"
    "readUInt32LE buf 16 = Inr jsonChunkType"
  using assms readUInt32LE_ex [of 8 buf] readUInt32LE_ex [of 12 buf] readUInt32LE_ex [of 16 buf]
  by auto

text \<open>
  C7, as amended. The claim: for every buffer that passes the signature check, the chunk
  length and the type tag are read at offset 12, and \<open>parseGLB\<close> fails with the
  first-chunk error exactly when the tag is not \<open>JSON\<close>. That holds for the buffers of at
  least 20 bytes, where the tag is the four bytes at offsets 16 to 19 and the chunk length
  is the little-endian value of the four bytes at offsets 12 to 15: with the tag \<open>JSON\<close>,
  the metadata handed to \<open>JSON.parse\<close> is that many bytes from offset 20 (or those the
  buffer holds). A buffer of fewer than 20 bytes that passes the signature check has no
  complete chunk header: one of the three 32-bit reads raises the range error, and the
  first-chunk error is not raised.
\<close>

theorem parseGLB_first_chunk_tag:
  assumes "toString_ascii (subarray buf 0 4) = ''glTF''"
  shows "(length buf < 20 \<longrightarrow> parseGLB JSON_parse buf = Inl RangeError) \<and>
         (20 \<le> length buf \<longrightarrow>
            (parseGLB JSON_parse buf = Inl FirstChunkNotJSON
             \<longleftrightarrow> [buf ! 16, buf ! 17, buf ! 18, buf ! 19] \<noteq> [0x4A, 0x53, 0x4F, 0x4E]) \<and>
            (parseGLB JSON_parse buf = Inl SyntaxError
             \<longleftrightarrow> [buf ! 16, buf ! 17, buf ! 18, buf ! 19] = [0x4A, 0x53, 0x4F, 0x4E] \<and>
                 JSON_parse (take (littleEndian [buf ! 12, buf ! 13, buf ! 14, buf ! 15])
                               (drop 20 buf)) = None))"
proof (intro conjI impI)
  assume "length buf < 20"
  then show "parseGLB JSON_parse buf = Inl RangeError"
    using assms by (rule parseGLB_short [rotated])
next
  assume long: "20 \<le> length buf"
  then obtain totalLength jsonChunkLength jsonChunkType where
    reads: "readUInt32LE buf 8 = Inr totalLength" "readUInt32LE buf 12 = Inr jsonChunkLength"
      "readUInt32LE buf 16 = Inr jsonChunkType"
    by (rule parseGLB_header_reads)
  have tag: "jsonChunkType = 0x4e4f534a
             \<longleftrightarrow> buf ! 16 = 0x4A \<and> buf ! 17 = 0x53 \<and> buf ! 18 = 0x4F \<and> buf ! 19 = 0x4E"
    using reads(3) long tag_JSON_bytes [of "buf ! 16" "buf ! 17" "buf ! 18" "buf ! 19"]
    by (auto simp: readUInt32LE_def)
  have len: "jsonChunkLength = littleEndian [buf ! 12, buf ! 13, buf ! 14, buf ! 15]"
    using reads(2) long readUInt32LE_littleEndian [of 12 buf] by simp
  have data: "subarray buf 20 (20 + jsonChunkLength) = take jsonChunkLength (drop 20 buf)"
    by (rule subarray_take_drop)
  have "parseGLB JSON_parse buf = Inl FirstChunkNotJSON \<longleftrightarrow> jsonChunkType \<noteq> 0x4e4f534a"
    unfolding parseGLB_unfold [OF assms reads]
    by (auto dest: readUInt32LE_error split: option.splits sum.splits)
  with tag show "parseGLB JSON_parse buf = Inl FirstChunkNotJSON
             \<longleftrightarrow> [buf ! 16, buf ! 17, buf ! 18, buf ! 19] \<noteq> [0x4A, 0x53, 0x4F, 0x4E]"
    by simp
  have "parseGLB JSON_parse buf = Inl SyntaxError
        \<longleftrightarrow> jsonChunkType = 0x4e4f534a \<and>
            JSON_parse (take jsonChunkLength (drop 20 buf)) = None"
    unfolding parseGLB_unfold [OF assms reads] data
    by (auto dest: readUInt32LE_error split: option.splits sum.splits)
  with tag len show "parseGLB JSON_parse buf = Inl SyntaxError
             \<longleftrightarrow> [buf ! 16, buf ! 17, buf ! 18, buf ! 19] = [0x4A, 0x53, 0x4F, 0x4E] \<and>
                 JSON_parse (take (littleEndian [buf ! 12, buf ! 13, buf ! 14, buf ! 15])
                               (drop 20 buf)) = None"
    by simp
qed

theorem parseGLB_first_chunk_tag_witness:
  "toString_ascii (subarray header_only 0 4) = ''glTF'' \<and> length header_only < 20 \<and>
   parseGLB JSON_parse_braces header_only = Inl RangeError \<and>
   toString_ascii (subarray wrong_tag 0 4) = ''glTF'' \<and> 20 \<le> length wrong_tag \<and>
   parseGLB JSON_parse_braces wrong_tag = Inl FirstChunkNotJSON"
proof -
  have m1: "toString_ascii (subarray header_only 0 4) = ''glTF''"
    by (simp add: header_only_def subarray_def toString_ascii_def char_eval)
  have m2: "toString_ascii (subarray wrong_tag 0 4) = ''glTF''"
    by (simp add: wrong_tag_def subarray_def toString_ascii_def char_eval)
  have l1: "length header_only < 20" by (simp add: header_only_def)
  have l2: "20 \<le> length wrong_tag" by (simp add: wrong_tag_def)
  have "[wrong_tag ! 16, wrong_tag ! 17, wrong_tag ! 18, wrong_tag ! 19]
        \<noteq> [0x4A, 0x53, 0x4F, 0x4E]"
    by (simp add: wrong_tag_def)
  then show ?thesis
    using m1 m2 l1 l2 parseGLB_first_chunk_tag [OF m1, of JSON_parse_braces]
      parseGLB_first_chunk_tag [OF m2, of JSON_parse_braces]
    by blast
qed

text \<open>
  The header-only buffer passes the signature check and has no tag at offset 16 (the read
  there is out of range), yet \<open>parseGLB\<close> does not fail with the first-chunk error.
\<close>

theorem parseGLB_header_only_counterexample:
  "toString_ascii (subarray header_only 0 4) = ''glTF'' \<and>
   readUInt32LE header_only 16 \<noteq> Inr 0x4e4f534a \<and>
   parseGLB JSON_parse_braces header_only \<noteq> Inl FirstChunkNotJSON"
  by (simp add: header_only_def parse_eval)

subsection \<open>Reads past the end of the buffer\<close>

text \<open>
  C8, as amended. The claim: any read of \<open>parseGLB\<close> that would run past the end of the
  buffer fails with the truncation error. That holds for the 32-bit reads (total length,
  chunk lengths, type tags), whose range error is raised exactly when one of them runs
  past the end: in a buffer of fewer than 20 bytes, or at the header of the second chunk.
  The chunk data is taken with \<open>subarray\<close>, which is clamped to the end of the buffer and
  raises nothing: a binary chunk that declares more bytes than the buffer holds is
  returned with the bytes there are.
\<close>

theorem parseGLB_range_errors:
  "(parseGLB JSON_parse buf = Inl RangeError \<longleftrightarrow>
      toString_ascii (subarray buf 0 4) = ''glTF'' \<and>
      (length buf < 20 \<or>
       (\<exists>totalLength jsonChunkLength.
          readUInt32LE buf 8 = Inr totalLength \<and>
          readUInt32LE buf 12 = Inr jsonChunkLength \<and>
          readUInt32LE buf 16 = Inr 0x4e4f534a \<and>
          JSON_parse (subarray buf 20 (20 + jsonChunkLength)) \<noteq> None \<and>
          20 + jsonChunkLength < totalLength \<and>
          length buf < 28 + jsonChunkLength))) \<and>
   (\<forall>gltfData binaryBuffer.
      parseGLB JSON_parse buf = Inr (gltfData, Some binaryBuffer) \<longrightarrow>
      (\<exists>jsonChunkLength binaryChunkLength.
         readUInt32LE buf 12 = Inr jsonChunkLength \<and>
         readUInt32LE buf (20 + jsonChunkLength) = Inr binaryChunkLength \<and>
         binaryBuffer = take binaryChunkLength (drop (28 + jsonChunkLength) buf) \<and>
         length binaryBuffer = min binaryChunkLength (length buf - (28 + jsonChunkLength))))"
proof (cases "toString_ascii (subarray buf 0 4) = ''glTF''")
  case False
  then have "parseGLB JSON_parse buf = Inl MissingMagic"
    by (simp add: parseGLB_MissingMagic_iff)
  with False show ?thesis by simp
next
  case magic: True
  show ?thesis
  proof (cases "length buf < 20")
    case True
    then have "parseGLB JSON_parse buf = Inl RangeError"
      using magic by (rule parseGLB_short [rotated])
    with magic True show ?thesis by simp
  next
    case False
    then have "20 \<le> length buf" by simp
    then obtain totalLength jsonChunkLength jsonChunkType where
      reads: "readUInt32LE buf 8 = Inr totalLength" "readUInt32LE buf 12 = Inr jsonChunkLength"
        "readUInt32LE buf 16 = Inr jsonChunkType"
      by (rule parseGLB_header_reads)
    have second: "readUInt32LE buf (24 + jsonChunkLength) = Inl RangeError
                  \<longleftrightarrow> length buf < 28 + jsonChunkLength"
      by (auto simp: readUInt32LE_def)
    have first: "readUInt32LE buf (20 + jsonChunkLength) = Inl e \<Longrightarrow> length buf < 28 + jsonChunkLength" for e
      by (auto simp: readUInt32LE_def split: if_splits)
    have sub: "subarray buf (28 + jsonChunkLength) (28 + jsonChunkLength + n)
               = take n (drop (28 + jsonChunkLength) buf)"
      if "28 + jsonChunkLength \<le> length buf" for n
      using that by (auto simp: subarray_def Let_def min_def)
    show ?thesis
      unfolding parseGLB_unfold [OF magic reads]
      using magic False reads second
      by (auto dest: readUInt32LE_error readUInt32LE_Inr first simp: sub
               split: option.splits sum.splits if_splits)
  qed
qed

theorem parseGLB_range_errors_witness:
  "parseGLB JSON_parse_braces header_only = Inl RangeError \<and>
   parseGLB JSON_parse_braces cut_second_header = Inl RangeError \<and>
   parseGLB JSON_parse_braces short_binary = Inr ((), Some [0xAB]) \<and>
   (\<exists>jsonChunkLength binaryChunkLength.
      readUInt32LE short_binary 12 = Inr jsonChunkLength \<and>
      readUInt32LE short_binary (20 + jsonChunkLength) = Inr binaryChunkLength \<and>
      [0xAB] = take binaryChunkLength (drop (28 + jsonChunkLength) short_binary) \<and>
      length [0xAB :: byte]
        = min binaryChunkLength (length short_binary - (28 + jsonChunkLength)))"
proof -
  have a: "parseGLB JSON_parse_braces header_only = Inl RangeError"
    using parseGLB_range_errors [of JSON_parse_braces header_only]
    by (simp add: header_only_def subarray_def toString_ascii_def char_eval)
  have b: "parseGLB JSON_parse_braces cut_second_header = Inl RangeError"
    using parseGLB_range_errors [of JSON_parse_braces cut_second_header]
    by (simp add: cut_second_header_def parse_eval)
  have c: "parseGLB JSON_parse_braces short_binary = Inr ((), Some [0xAB])"
    by (simp add: short_binary_def parse_eval)
  from c a b show ?thesis
    using parseGLB_range_errors [of JSON_parse_braces short_binary] by blast
qed

text \<open>
  The container \<open>short_binary\<close> has 31 bytes and a binary chunk that declares 1000 bytes
  from offset 30: the read of the chunk data runs past the end, and \<open>parseGLB\<close> returns
  the single byte there is.
\<close>

theorem parseGLB_short_binary_counterexample:
  "length short_binary = 31 \<and>
   readUInt32LE short_binary 22 = Inr 1000 \<and>
   parseGLB JSON_parse_braces short_binary = Inr ((), Some [0xAB])"
  by (simp add: short_binary_def parse_eval)

subsection \<open>The declared total length\<close>

text \<open>
  C9, as amended. The claim: a total length that is inconsistent with the chunk table
  makes \<open>parseGLB\<close> fail before any chunk is read. \<open>parseGLB\<close> compares the total length
  with nothing but the offset after the first chunk, to decide whether a second chunk
  header is read: once the signature and the first chunk are accepted, every total length
  that is not beyond that offset gives the metadata and no binary buffer, whatever the
  chunk table and the length of the buffer are.
\<close>

theorem parseGLB_total_length_unchecked:
  assumes "toString_ascii (subarray buf 0 4) = ''glTF''"
    and "readUInt32LE buf 8 = Inr totalLength"
    and "readUInt32LE buf 12 = Inr jsonChunkLength"
    and "readUInt32LE buf 16 = Inr 0x4e4f534a"
    and "JSON_parse (subarray buf 20 (20 + jsonChunkLength)) = Some gltfData"
    and "totalLength \<le> 20 + jsonChunkLength"
  shows "parseGLB JSON_parse buf = Inr (gltfData, None)"
  using assms(5,6) unfolding parseGLB_unfold [OF assms(1-4)] by simp

theorem parseGLB_total_length_unchecked_witness:
  "toString_ascii (subarray small_total 0 4) = ''glTF'' \<and>
   readUInt32LE small_total 8 = Inr 7 \<and>
   readUInt32LE small_total 12 = Inr 2 \<and>
   readUInt32LE small_total 16 = Inr 0x4e4f534a \<and>
   JSON_parse_braces (subarray small_total 20 (20 + 2)) = Some () \<and>
   (7 :: nat) \<le> 20 + 2 \<and>
   parseGLB JSON_parse_braces small_total = Inr ((), None)"
proof -
  have h: "toString_ascii (subarray small_total 0 4) = ''glTF''"
    "readUInt32LE small_total 8 = Inr 7"
    "readUInt32LE small_total 12 = Inr 2"
    "readUInt32LE small_total 16 = Inr 0x4e4f534a"
    "JSON_parse_braces (subarray small_total 20 (20 + 2)) = Some ()"
    "(7 :: nat) \<le> 20 + 2"
    by (simp_all add: small_total_def parse_eval)
  from h parseGLB_total_length_unchecked
         [of small_total 7 2 JSON_parse_braces "()", OF h]
  show ?thesis by simp
qed

text \<open>
  The container \<open>zero_total\<close> declares the total length 0 and holds a first chunk in the
  bytes 12 to 22; it is parsed without error.
\<close>

theorem parseGLB_zero_total_counterexample:
  "length zero_total = 22 \<and>
   readUInt32LE zero_total 8 = Inr 0 \<and>
   readUInt32LE zero_total 12 = Inr 2 \<and>
   parseGLB JSON_parse_braces zero_total = Inr ((), None)"
  by (simp add: zero_total_def parse_eval)

section \<open>Properties of \<open>extractAccessorData\<close>\<close>

subsection \<open>Slices and tables\<close>

lemma slice_list_take_drop: "slice_list xs start (start + n) = take n (drop start xs)"
  by (cases "start \<le> length xs") (auto simp: slice_list_def Let_def min_def)

lemma slice_list_take: "slice_list xs 0 n = take n xs"
  using slice_list_take_drop [of xs 0 n] by simp

lemma subarray_zero: "subarray buf start 0 = []"
  by (simp add: subarray_def Let_def)

lemma COMPONENT_TYPES_Some:
  "COMPONENT_TYPES code = Some ct \<Longrightarrow>
   BYTES_PER_ELEMENT (ct_array ct) = ct_size ct \<and> 0 < ct_size ct"
  by (auto simp: COMPONENT_TYPES_def BYTES_PER_ELEMENT_def split: if_splits)


lemma TYPE_SIZES_Some: "TYPE_SIZES tag = Some n \<Longrightarrow> 0 < n"
  by (auto simp: TYPE_SIZES_def split: if_splits)

lemma TYPE_SIZES_None_iff:
  "TYPE_SIZES tag = None \<longleftrightarrow>
   tag \<notin> {''SCALAR'', ''VEC2'', ''VEC3'', ''VEC4'', ''MAT2'', ''MAT3'', ''MAT4''}"
  by (simp add: TYPE_SIZES_def)

subsection \<open>The grouping loop\<close>

declare chunk.simps [simp del]

lemma chunk_Nil [simp]: "chunk n [] = []"
  by (simp add: chunk.simps)

lemma chunk_step: "0 < n \<Longrightarrow> xs \<noteq> [] \<Longrightarrow> chunk n xs = take n xs # chunk n (drop n xs)"
  by (subst chunk.simps) simp

lemma concat_chunk: "0 < n \<Longrightarrow> concat (chunk n xs) = xs"
proof (induction n xs rule: chunk.induct)
  case (1 n xs)
  show ?case
  proof (cases "xs = []")
    case True
    then show ?thesis by simp
  next
    case False
    with 1 show ?thesis by (simp add: chunk_step)
  qed
qed

lemma chunk_exact:
  "0 < n \<Longrightarrow> length xs = m * n \<Longrightarrow>
   length (chunk n xs) = m \<and> (\<forall>k<m. chunk n xs ! k = take n (drop (k * n) xs))"
proof (induction m arbitrary: xs)
  case 0
  then show ?case by simp
next
  case (Suc m)
  then have ne: "xs \<noteq> []" by auto
  have len: "length (drop n xs) = m * n" using Suc.prems by simp
  note ih = Suc.IH [OF Suc.prems(1) len]
  have step: "chunk n xs = take n xs # chunk n (drop n xs)"
    using Suc.prems(1) ne by (rule chunk_step)
  show ?case
  proof (intro conjI allI impI)
    show "length (chunk n xs) = Suc m" using step ih by simp
  next
    fix k assume "k < Suc m"
    show "chunk n xs ! k = take n (drop (k * n) xs)"
    proof (cases k)
      case 0
      then show ?thesis using step by simp
    next
      case (Suc k')
      with \<open>k < Suc m\<close> have "k' < m" by simp
      with ih have "chunk n (drop n xs) ! k' = take n (drop (k' * n) (drop n xs))" by simp
      with Suc step show ?thesis by (simp add: add.commute)
    qed
  qed
qed

lemma chunk_pieces: "0 < n \<Longrightarrow> p \<in> set (chunk n xs) \<Longrightarrow> p \<noteq> [] \<and> length p \<le> n"
proof (induction n xs rule: chunk.induct)
  case (1 n xs)
  show ?case
  proof (cases "xs = []")
    case True
    with 1 show ?thesis by simp
  next
    case False
    with 1 show ?thesis by (auto simp: chunk_step)
  qed
qed

lemma components_toGroup:
  "p \<noteq> [] \<Longrightarrow> length p \<le> n \<Longrightarrow> components (toGroup n p) = p"
  by (cases p) (auto simp: toGroup_def)

lemma components_groups:
  assumes "0 < n"
  shows "concat (map components (map (toGroup n) (chunk n xs))) = xs"
proof -
  have "components (toGroup n p) = p" if "p \<in> set (chunk n xs)" for p
    using chunk_pieces [OF assms that] by (simp add: components_toGroup)
  then have "map (\<lambda>p. components (toGroup n p)) (chunk n xs) = chunk n xs"
    by (rule map_idI)
  then have "map components (map (toGroup n) (chunk n xs)) = chunk n xs"
    by (simp add: comp_def)
  then show ?thesis by (simp only: concat_chunk [OF assms])
qed

text \<open>
  For a positive \<open>typeSize\<close> the loop ends, and it appends one group for each piece of
  \<open>typeSize\<close> values from position \<open>i\<close> on.
\<close>

lemma groupLoop_Some:
  "0 < n \<Longrightarrow>
   groupLoop (Some n) vs i acc = Some (acc @ map (toGroup n) (chunk n (drop i vs)))"
proof (induction "length vs - i" arbitrary: i acc rule: less_induct)
  case less
  show ?case
  proof (cases "i < length vs")
    case False
    then show ?thesis by (subst groupLoop.simps) simp
  next
    case True
    then have ne: "drop i vs \<noteq> []" by simp
    have "length vs - (i + n) < length vs - i" using True less.prems by simp
    then have ih: "groupLoop (Some n) vs (i + n) acc'
                   = Some (acc' @ map (toGroup n) (chunk n (drop (i + n) vs)))" for acc'
      using less.hyps less.prems by simp
    have piece: "(if n = 1 then Bare (vs ! i) else Group (slice_list vs i (i + n)))
                 = toGroup n (take n (drop i vs))"
    proof (cases "n = 1")
      case True
      with \<open>i < length vs\<close> show ?thesis
        unfolding toGroup_def by (simp add: hd_drop_conv_nth)
    next
      case False
      then show ?thesis
        unfolding toGroup_def by (simp add: slice_list_take_drop)
    qed
    have "groupLoop (Some n) vs i acc
          = groupLoop (Some n) vs (i + n)
              (acc @ [if n = 1 then Bare (vs ! i) else Group (slice_list vs i (i + n))])"
      using True by (subst groupLoop.simps) simp
    also have "\<dots> = Some (acc @ toGroup n (take n (drop i vs))
                          # map (toGroup n) (chunk n (drop (i + n) vs)))"
      unfolding piece ih by simp
    also have "toGroup n (take n (drop i vs)) # map (toGroup n) (chunk n (drop (i + n) vs))
               = map (toGroup n) (chunk n (drop i vs))"
      using less.prems ne by (simp add: chunk_step add.commute)
    finally show ?thesis .
  qed
qed

lemma groupLoop_None:
  "groupLoop None [] 0 [] = Some []"
  by (subst groupLoop.simps) simp

subsection \<open>The byte window and the typed array\<close>

lemma newTypedArray_misaligned:
  "length bs mod BYTES_PER_ELEMENT a \<noteq> 0 \<Longrightarrow> newTypedArray a bs = Inl RangeError"
  by (simp add: newTypedArray_def Let_def)

lemma newTypedArray_aligned:
  "length bs mod BYTES_PER_ELEMENT a = 0 \<Longrightarrow>
   newTypedArray a bs =
     Inr (map (\<lambda>i. element a (take (BYTES_PER_ELEMENT a) (drop (i * BYTES_PER_ELEMENT a) bs)))
            [0 ..< length bs div BYTES_PER_ELEMENT a])"
  by (simp add: newTypedArray_def Let_def subarray_take_drop)

lemma rawBytes_Some:
  "rawBytes ct (Some ts) acc bv buf
   = take (acc_count acc * (ct_size ct * ts)) (drop (byteOffset acc bv) buf)"
  by (simp add: rawBytes_def byteLength_def elementSize_def subarray_take_drop)

lemma rawBytes_None: "rawBytes ct None acc bv buf = []"
  by (simp add: rawBytes_def byteLength_def elementSize_def subarray_zero)

lemma rawBytes_length:
  "length (rawBytes ct (Some ts) acc bv buf)
   = min (acc_count acc * (ct_size ct * ts)) (length buf - byteOffset acc bv)"
  by (simp add: rawBytes_Some min.commute)

lemma rawBytes_nth:
  "i < length (rawBytes ct (Some ts) acc bv buf) \<Longrightarrow>
   rawBytes ct (Some ts) acc bv buf ! i = buf ! (byteOffset acc bv + i)"
proof -
  assume "i < length (rawBytes ct (Some ts) acc bv buf)"
  then have "i < acc_count acc * (ct_size ct * ts)" and "byteOffset acc bv \<le> length buf"
    by (auto simp: rawBytes_Some)
  then show ?thesis by (simp add: rawBytes_Some)
qed

lemma div_mult_le_bound: "0 < w \<Longrightarrow> i < n div w \<Longrightarrow> i * w + w \<le> (n::nat)"
proof -
  assume "0 < w" and "i < n div w"
  then have "Suc i \<le> n div w" by simp
  then have "Suc i * w \<le> (n div w) * w" by (rule mult_le_mono1)
  also have "\<dots> \<le> n" by simp
  finally show ?thesis by (simp add: add.commute)
qed

lemma window_piece:
  assumes "i * w + w \<le> length (take len (drop start buf))"
  shows "take w (drop (i * w) (take len (drop start buf))) = take w (drop (start + i * w) buf)"
proof -
  from assms have "i * w + w \<le> len" by simp
  then have "min w (len - i * w) = w" by simp
  then show ?thesis by (simp add: drop_take add.commute)
qed

lemma window_values:
  assumes "0 < BYTES_PER_ELEMENT a"
    and "length (take len (drop start buf)) mod BYTES_PER_ELEMENT a = 0"
  shows "newTypedArray a (take len (drop start buf))
         = Inr (map (component a (BYTES_PER_ELEMENT a) buf start)
                  [0 ..< length (take len (drop start buf)) div BYTES_PER_ELEMENT a])"
proof -
  let ?w = "BYTES_PER_ELEMENT a" and ?raw = "take len (drop start buf)"
  have "element a (take ?w (drop (i * ?w) ?raw)) = component a ?w buf start i"
    if "i < length ?raw div ?w" for i
  proof -
    from assms(1) that have "i * ?w + ?w \<le> length ?raw" by (rule div_mult_le_bound)
    then show ?thesis
      unfolding component_def subarray_take_drop by (simp only: window_piece)
  qed
  then show ?thesis
    unfolding newTypedArray_aligned [OF assms(2)] by simp
qed

lemma groupValues_misaligned:
  assumes "COMPONENT_TYPES code = Some ct" and "length raw mod ct_size ct \<noteq> 0"
  shows "groupValues ct typeSize raw = Some (Inl RangeError)"
  using assms COMPONENT_TYPES_Some [OF assms(1)]
  by (simp add: groupValues_def newTypedArray_misaligned)

lemma groupValues_window:
  assumes "COMPONENT_TYPES code = Some ct" and "0 < ts"
    and "length (take len (drop start buf)) mod ct_size ct = 0"
  shows "groupValues ct (Some ts) (take len (drop start buf))
         = Some (Inr (map (toGroup ts)
              (chunk ts (map (component (ct_array ct) (ct_size ct) buf start)
                 [0 ..< length (take len (drop start buf)) div ct_size ct]))))"
proof -
  from COMPONENT_TYPES_Some [OF assms(1)]
  have w: "BYTES_PER_ELEMENT (ct_array ct) = ct_size ct" and pos: "0 < ct_size ct"
    by simp_all
  have "newTypedArray (ct_array ct) (take len (drop start buf))
        = Inr (map (component (ct_array ct) (ct_size ct) buf start)
                 [0 ..< length (take len (drop start buf)) div ct_size ct])"
    using window_values [of "ct_array ct" len start buf] assms(3) pos by (simp add: w)
  then show ?thesis
    by (simp add: groupValues_def groupLoop_Some [OF assms(2)])
qed

lemma take_drop_map_upt:
  "k * n + n \<le> m \<Longrightarrow> take n (drop (k * n) (map f [0 ..< m])) = map f [k * n ..< k * n + n]"
  by (simp add: take_map drop_map)

lemma covered_groups:
  assumes ct: "COMPONENT_TYPES code = Some ct" and ts: "0 < ts"
    and cover: "start + n * (ct_size ct * ts) \<le> length buf"
  shows "\<exists>gs. groupValues ct (Some ts) (take (n * (ct_size ct * ts)) (drop start buf))
                 = Some (Inr gs) \<and>
              length gs = n \<and>
              (\<forall>k<n. gs ! k =
                 (if ts = 1 then Bare (component (ct_array ct) (ct_size ct) buf start k)
                  else Group (map (component (ct_array ct) (ct_size ct) buf start)
                                [k * ts ..< k * ts + ts])))"
proof -
  define cmp where "cmp = component (ct_array ct) (ct_size ct) buf start"
  let ?w = "ct_size ct"
  let ?raw = "take (n * (?w * ts)) (drop start buf)"
  let ?vals = "map cmp [0 ..< n * ts]"
  from COMPONENT_TYPES_Some [OF ct] have pos: "0 < ?w" by simp
  have len: "length ?raw = n * ts * ?w" using cover by (simp add: mult.commute mult.left_commute)
  then have aligned: "length ?raw mod ?w = 0" and count: "length ?raw div ?w = n * ts"
    using pos by simp_all
  have gv: "groupValues ct (Some ts) ?raw = Some (Inr (map (toGroup ts) (chunk ts ?vals)))"
    using groupValues_window [OF ct ts aligned] unfolding count cmp_def .
  have "length ?vals = n * ts" by simp
  from chunk_exact [OF ts this]
  have clen: "length (chunk ts ?vals) = n"
    and cnth: "\<And>k. k < n \<Longrightarrow> chunk ts ?vals ! k = take ts (drop (k * ts) ?vals)"
    by simp_all
  have piece: "chunk ts ?vals ! k = map cmp [k * ts ..< k * ts + ts]" if "k < n" for k
  proof -
    from that have "Suc k \<le> n" by simp
    then have "Suc k * ts \<le> n * ts" by (rule mult_le_mono1)
    then have "k * ts + ts \<le> n * ts" by (simp add: add.commute)
    then show ?thesis using cnth [OF that] by (simp only: take_drop_map_upt)
  qed
  have "map (toGroup ts) (chunk ts ?vals) ! k
        = (if ts = 1 then Bare (cmp k) else Group (map cmp [k * ts ..< k * ts + ts]))"
    if "k < n" for k
    using that clen piece [OF that] by (simp add: toGroup_def)
  with gv clen show ?thesis unfolding cmp_def by auto
qed

subsection \<open>The result object\<close>

lemma extractAccessorData_result:
  assumes "COMPONENT_TYPES (acc_componentType acc) = Some ct"
    and "groupValues ct (TYPE_SIZES (acc_type acc))
           (rawBytes ct (TYPE_SIZES (acc_type acc)) acc bv buf) = Some (Inr gs)"
  shows "extractAccessorData exponential acc (Some bv) buf =
           Some (Inr (if 20 < length gs
                      then \<lparr>r_error = None, r_type = Some (acc_type acc),
                            r_componentType = Some (ct_name ct), r_count = Some (acc_count acc),
                            r_min = acc_min acc, r_max = acc_max acc,
                            r_values = None, r_truncatedValues = Some (take 20 gs)\<rparr>
                      else \<lparr>r_error = None, r_type = Some (acc_type acc),
                            r_componentType = Some (ct_name ct), r_count = Some (acc_count acc),
                            r_min = acc_min acc, r_max = acc_max acc,
                            r_values = Some gs, r_truncatedValues = None\<rparr>))"
  using assms
  by (simp add: extractAccessorData_def Let_def TRUNCATE_LIMIT_def emptyResult_def
        slice_list_take)

lemma extractAccessorData_error:
  assumes "COMPONENT_TYPES (acc_componentType acc) = Some ct"
    and "groupValues ct (TYPE_SIZES (acc_type acc))
           (rawBytes ct (TYPE_SIZES (acc_type acc)) acc bv buf) = Some (Inl e)"
  shows "extractAccessorData exponential acc (Some bv) buf = Some (Inl e)"
  using assms by (simp add: extractAccessorData_def Let_def)


lemma extractAccessorData_by_rawBytes:
  assumes "rawBytes ct ts acc bv buf' = rawBytes ct ts acc bv buf"
    and "COMPONENT_TYPES (acc_componentType acc) = Some ct" and "TYPE_SIZES (acc_type acc) = ts"
  shows "extractAccessorData exponential acc (Some bv) buf' = extractAccessorData exponential acc (Some bv) buf"
  using assms by (simp add: extractAccessorData_def)

lemmas decode_eval = extractAccessorData_def COMPONENT_TYPES_def TYPE_SIZES_def
  TRUNCATE_LIMIT_def groupValues_def rawBytes_def byteOffset_def byteLength_def elementSize_def
  newTypedArray_def BYTES_PER_ELEMENT_def element_def subarray_def slice_list_def
  emptyResult_def groupLoop.simps Let_def

subsection \<open>Groups of a covered window\<close>

text \<open>The two tables, entry by entry.\<close>

lemma COMPONENT_TYPES_entry:
  assumes "(code, width, a) \<in> {(5120, 1, Int8Array), (5121, 1, Uint8Array),
             (5122, 2, Int16Array), (5123, 2, Uint16Array), (5125, 4, Uint32Array),
             (5126, 4, Float32Array)}"
  shows "\<exists>ct. COMPONENT_TYPES code = Some ct \<and> ct_size ct = width \<and> ct_array ct = a"
  using assms by (elim insertE emptyE; simp add: COMPONENT_TYPES_def)

lemma TYPE_SIZES_entry:
  assumes "(tag, n) \<in> {(''SCALAR'', 1), (''VEC2'', 2), (''VEC3'', 3), (''VEC4'', 4),
             (''MAT2'', 4), (''MAT3'', 9), (''MAT4'', 16)}"
  shows "TYPE_SIZES tag = Some n \<and> (n = 1 \<longleftrightarrow> tag = ''SCALAR'')"
  using assms by (elim insertE emptyE; simp add: TYPE_SIZES_def)

lemma extractAccessorData_covered:
  assumes "COMPONENT_TYPES (acc_componentType acc) = Some ct"
    and "TYPE_SIZES (acc_type acc) = Some ts"
    and "byteOffset acc bv + acc_count acc * (ct_size ct * ts) \<le> length buf"
  shows "\<exists>r gs. extractAccessorData exponential acc (Some bv) buf = Some (Inr r) \<and>
           r_error r = None \<and>
           (if 20 < acc_count acc
            then r_truncatedValues r = Some gs \<and> r_values r = None
            else r_values r = Some gs \<and> r_truncatedValues r = None) \<and>
           length gs = min (acc_count acc) 20 \<and>
           (\<forall>k<length gs. gs ! k =
              (if ts = 1
               then Bare (component (ct_array ct) (ct_size ct) buf (byteOffset acc bv) k)
               else Group (map (component (ct_array ct) (ct_size ct) buf (byteOffset acc bv))
                             [k * ts ..< k * ts + ts])))"
proof -
  from assms(2) have ts: "0 < ts" by (rule TYPE_SIZES_Some)
  from covered_groups [OF assms(1) ts assms(3)]
  obtain gs where
    gv: "groupValues ct (Some ts)
           (take (acc_count acc * (ct_size ct * ts)) (drop (byteOffset acc bv) buf))
         = Some (Inr gs)"
    and len: "length gs = acc_count acc"
    and nth: "\<And>k. k < acc_count acc \<Longrightarrow> gs ! k =
                (if ts = 1
                 then Bare (component (ct_array ct) (ct_size ct) buf (byteOffset acc bv) k)
                 else Group (map (component (ct_array ct) (ct_size ct) buf (byteOffset acc bv))
                               [k * ts ..< k * ts + ts]))"
    by blast
  from gv have "groupValues ct (TYPE_SIZES (acc_type acc))
                  (rawBytes ct (TYPE_SIZES (acc_type acc)) acc bv buf) = Some (Inr gs)"
    by (simp add: assms(2) rawBytes_Some)
  note res = extractAccessorData_result [OF assms(1) this, of exponential]
  show ?thesis
  proof (cases "20 < acc_count acc")
    case True
    with res len nth show ?thesis
      by (simp add: min_def)
  next
    case False
    with res len nth show ?thesis
      by (simp add: min_def)
  qed
qed

text \<open>
  C1. For an accessor with one of the six recognized component-type codes (5120, 5121,
  5122, 5123, 5125, 5126, of byte widths 1, 1, 2, 2, 4, 4) and one of the seven recognized
  shapes (\<open>SCALAR\<close>, \<open>VEC2\<close>, \<open>VEC3\<close>, \<open>VEC4\<close>, \<open>MAT2\<close>, \<open>MAT3\<close>, \<open>MAT4\<close>, of 1, 2, 3, 4, 4,
  9, 16 components per element), and a buffer that covers the computed byte window,
  \<open>extractAccessorData\<close> returns a result without error field. With \<open>N\<close> the element
  count, the result holds \<open>min N 20\<close> groups: under \<open>values\<close> when \<open>N\<close> is at most 20,
  under \<open>truncatedValues\<close> otherwise. Group \<open>k\<close> is a bare number for the shape \<open>SCALAR\<close>
  and otherwise the sequence of the \<open>n\<close> components \<open>k * n\<close>, ..., \<open>k * n + n - 1\<close> of the
  accessor, in that order, \<open>n\<close> being the number of components per element of the shape;
  component \<open>j\<close> is the number read, in the representation of the component type, from
  the bytes of the buffer at \<open>start + j * width\<close>.
\<close>

theorem extractAccessorData_groups:
  assumes "(acc_componentType acc, width, a) \<in> {(5120, 1, Int8Array), (5121, 1, Uint8Array),
             (5122, 2, Int16Array), (5123, 2, Uint16Array), (5125, 4, Uint32Array),
             (5126, 4, Float32Array)}"
    and "(acc_type acc, n) \<in> {(''SCALAR'', 1), (''VEC2'', 2), (''VEC3'', 3), (''VEC4'', 4),
             (''MAT2'', 4), (''MAT3'', 9), (''MAT4'', 16)}"
    and "start = (case bv_byteOffset bv of None \<Rightarrow> 0 | Some v \<Rightarrow> v)
                 + (case acc_byteOffset acc of None \<Rightarrow> 0 | Some v \<Rightarrow> v)"
    and "start + acc_count acc * (width * n) \<le> length buf"
  shows "\<exists>r gs. extractAccessorData exponential acc (Some bv) buf = Some (Inr r) \<and>
           r_error r = None \<and>
           (if 20 < acc_count acc
            then r_truncatedValues r = Some gs \<and> r_values r = None
            else r_values r = Some gs \<and> r_truncatedValues r = None) \<and>
           length gs = min (acc_count acc) 20 \<and>
           (\<forall>k<length gs. gs ! k =
              (if acc_type acc = ''SCALAR''
               then Bare (component a width buf start k)
               else Group (map (component a width buf start) [k * n ..< k * n + n])))"
proof -
  from COMPONENT_TYPES_entry [OF assms(1)] obtain ct where
    ct: "COMPONENT_TYPES (acc_componentType acc) = Some ct"
    and w: "ct_size ct = width" and a: "ct_array ct = a"
    by blast
  from TYPE_SIZES_entry [OF assms(2)]
  have ts: "TYPE_SIZES (acc_type acc) = Some n" and scalar: "n = 1 \<longleftrightarrow> acc_type acc = ''SCALAR''"
    by simp_all
  have start: "byteOffset acc bv = start" by (simp add: byteOffset_def assms(3))
  have cover: "byteOffset acc bv + acc_count acc * (ct_size ct * n) \<le> length buf"
    using assms(4) by (simp add: start w)
  from extractAccessorData_covered [OF ct ts cover, of exponential]
  show ?thesis unfolding start w a scalar .
qed

text \<open>
  Two pairs of 16-bit integers at offset 3 of a 12-byte buffer, and one 32-bit float at
  offset 108 of a 112-byte buffer.
\<close>

theorem extractAccessorData_groups_witness:
  "(\<exists>r gs. extractAccessorData exponential_1e21 short_vec2 (Some view_at_1) twelve_bytes
            = Some (Inr r) \<and>
      r_values r = Some gs \<and> r_truncatedValues r = None \<and> length gs = 2 \<and>
      gs ! 0 = Group [component Int16Array 2 twelve_bytes 3 0,
                      component Int16Array 2 twelve_bytes 3 1] \<and>
      gs ! 1 = Group [component Int16Array 2 twelve_bytes 3 2,
                      component Int16Array 2 twelve_bytes 3 3]) \<and>
   extractAccessorData exponential_1e21 short_vec2 (Some view_at_1) twelve_bytes =
     Some (Inr \<lparr>r_error = None, r_type = Some ''VEC2'', r_componentType = Some ''SHORT'',
       r_count = Some 2, r_min = None, r_max = None,
       r_values = Some [Group [Integer 1, Integer (- 1)], Group [Integer 3, Integer 4]],
       r_truncatedValues = None\<rparr>) \<and>
   (\<exists>r gs. extractAccessorData exponential_1e21 float_scalar (Some view_at_100) float_one_at_108
            = Some (Inr r) \<and>
      r_values r = Some gs \<and> r_truncatedValues r = None \<and> length gs = 1 \<and>
      gs ! 0 = Bare (component Float32Array 4 float_one_at_108 108 0))"
proof -
  have h1: "(acc_componentType short_vec2, 2, Int16Array) \<in> {(5120, 1, Int8Array),
             (5121, 1, Uint8Array), (5122, 2, Int16Array), (5123, 2, Uint16Array),
             (5125, 4, Uint32Array), (5126, 4, Float32Array)}"
    by (simp add: short_vec2_def)
  have h2: "(acc_type short_vec2, 2) \<in> {(''SCALAR'', 1), (''VEC2'', 2), (''VEC3'', 3),
             (''VEC4'', 4), (''MAT2'', 4), (''MAT3'', 9), (''MAT4'', 16)}"
    by (simp add: short_vec2_def)
  have h3: "3 = (case bv_byteOffset view_at_1 of None \<Rightarrow> 0 | Some v \<Rightarrow> v)
                 + (case acc_byteOffset short_vec2 of None \<Rightarrow> 0 | Some v \<Rightarrow> v)"
    by (simp add: short_vec2_def view_at_1_def)
  have h4: "3 + acc_count short_vec2 * (2 * 2) \<le> length twelve_bytes"
    by (simp add: short_vec2_def twelve_bytes_def)
  have vec: "acc_type short_vec2 \<noteq> ''SCALAR''" and count: "acc_count short_vec2 = 2"
    by (simp_all add: short_vec2_def)
  from extractAccessorData_groups [OF h1 h2 h3 h4, of exponential_1e21]
  obtain r gs where
    r: "extractAccessorData exponential_1e21 short_vec2 (Some view_at_1) twelve_bytes
        = Some (Inr r)"
    and v: "r_values r = Some gs" "r_truncatedValues r = None" "length gs = 2"
    and nth: "\<forall>k<length gs. gs ! k =
               Group (map (component Int16Array 2 twelve_bytes 3) [k * 2 ..< k * 2 + 2])"
    by (auto simp: vec count)
  from nth v(3)
  have "gs ! 0 = Group (map (component Int16Array 2 twelve_bytes 3) [0 * 2 ..< 0 * 2 + 2])"
    and "gs ! 1 = Group (map (component Int16Array 2 twelve_bytes 3) [1 * 2 ..< 1 * 2 + 2])"
    by simp_all
  then have g: "gs ! 0 = Group [component Int16Array 2 twelve_bytes 3 0,
                               component Int16Array 2 twelve_bytes 3 1]"
    "gs ! 1 = Group [component Int16Array 2 twelve_bytes 3 2,
                     component Int16Array 2 twelve_bytes 3 3]"
    by (simp_all add: upt_rec)
  have e: "extractAccessorData exponential_1e21 short_vec2 (Some view_at_1) twelve_bytes =
     Some (Inr \<lparr>r_error = None, r_type = Some ''VEC2'', r_componentType = Some ''SHORT'',
       r_count = Some 2, r_min = None, r_max = None,
       r_values = Some [Group [Integer 1, Integer (- 1)], Group [Integer 3, Integer 4]],
       r_truncatedValues = None\<rparr>)"
    by (simp add: short_vec2_def view_at_1_def twelve_bytes_def decode_eval)
  have f1: "(acc_componentType float_scalar, 4, Float32Array) \<in> {(5120, 1, Int8Array),
             (5121, 1, Uint8Array), (5122, 2, Int16Array), (5123, 2, Uint16Array),
             (5125, 4, Uint32Array), (5126, 4, Float32Array)}"
    by (simp add: float_scalar_def)
  have f2: "(acc_type float_scalar, 1) \<in> {(''SCALAR'', 1), (''VEC2'', 2), (''VEC3'', 3),
             (''VEC4'', 4), (''MAT2'', 4), (''MAT3'', 9), (''MAT4'', 16)}"
    by (simp add: float_scalar_def)
  have f3: "108 = (case bv_byteOffset view_at_100 of None \<Rightarrow> 0 | Some v \<Rightarrow> v)
                 + (case acc_byteOffset float_scalar of None \<Rightarrow> 0 | Some v \<Rightarrow> v)"
    by (simp add: float_scalar_def view_at_100_def)
  have f4: "108 + acc_count float_scalar * (4 * 1) \<le> length float_one_at_108"
    by (simp add: float_scalar_def float_one_at_108_def)
  have scalar: "acc_type float_scalar = ''SCALAR''" and fcount: "acc_count float_scalar = 1"
    by (simp_all add: float_scalar_def)
  from extractAccessorData_groups [OF f1 f2 f3 f4, of exponential_1e21]
  have f: "\<exists>r gs. extractAccessorData exponential_1e21 float_scalar (Some view_at_100)
                float_one_at_108 = Some (Inr r) \<and>
      r_values r = Some gs \<and> r_truncatedValues r = None \<and> length gs = 1 \<and>
      gs ! 0 = Bare (component Float32Array 4 float_one_at_108 108 0)"
    by (auto simp: scalar fcount)
  from r v g e f show ?thesis by blast
qed

subsection \<open>Truncation\<close>

text \<open>
  C2. Every result without error field has exactly one of the fields \<open>values\<close> and
  \<open>truncatedValues\<close>: with \<open>gs\<close> the groups computed from the byte window, it has
  \<open>truncatedValues\<close>, holding the first 20 groups, and no \<open>values\<close> when there are more
  than 20 groups; it has \<open>values\<close>, holding all the groups, and no \<open>truncatedValues\<close> when
  there are at most 20.
\<close>

theorem extractAccessorData_values_or_truncatedValues:
  assumes "extractAccessorData exponential acc bv buf = Some (Inr r)" and "r_error r = None"
  shows "\<exists>ct view gs.
           COMPONENT_TYPES (acc_componentType acc) = Some ct \<and> bv = Some view \<and>
           groupValues ct (TYPE_SIZES (acc_type acc))
             (rawBytes ct (TYPE_SIZES (acc_type acc)) acc view buf) = Some (Inr gs) \<and>
           (if 20 < length gs
            then r_truncatedValues r = Some (take 20 gs) \<and> r_values r = None
            else r_values r = Some gs \<and> r_truncatedValues r = None)"
proof (cases "COMPONENT_TYPES (acc_componentType acc)")
  case None
  with assms show ?thesis by (auto simp: extractAccessorData_def emptyResult_def)
next
  case ct: (Some ct)
  show ?thesis
  proof (cases bv)
    case None
    with assms(1) ct show ?thesis by (simp add: extractAccessorData_def)
  next
    case view: (Some view)
    let ?g = "groupValues ct (TYPE_SIZES (acc_type acc))
                (rawBytes ct (TYPE_SIZES (acc_type acc)) acc view buf)"
    from assms(1) ct view obtain gs where gs: "?g = Some (Inr gs)"
      by (auto simp: extractAccessorData_def Let_def split: option.splits sum.splits)
    from extractAccessorData_result [OF ct gs] assms(1) view
    have "r = (if 20 < length gs
                      then \<lparr>r_error = None, r_type = Some (acc_type acc),
                            r_componentType = Some (ct_name ct), r_count = Some (acc_count acc),
                            r_min = acc_min acc, r_max = acc_max acc,
                            r_values = None, r_truncatedValues = Some (take 20 gs)\<rparr>
                      else \<lparr>r_error = None, r_type = Some (acc_type acc),
                            r_componentType = Some (ct_name ct), r_count = Some (acc_count acc),
                            r_min = acc_min acc, r_max = acc_max acc,
                            r_values = Some gs, r_truncatedValues = None\<rparr>)"
      by simp
    with ct view gs show ?thesis by auto
  qed
qed

theorem extractAccessorData_values_or_truncatedValues_witness:
  "(\<exists>r gs. extractAccessorData exponential_1e21 (byte_vec2 21) (Some plain_view) forty_two_bytes = Some (Inr r) \<and>
      r_error r = None \<and> length gs = 21 \<and>
      r_truncatedValues r = Some (take 20 gs) \<and> r_values r = None) \<and>
   (\<exists>r gs. extractAccessorData exponential_1e21 (byte_vec2 20) (Some plain_view) forty_two_bytes = Some (Inr r) \<and>
      r_error r = None \<and> length gs = 20 \<and>
      r_values r = Some gs \<and> r_truncatedValues r = None)"
proof -
  have ct: "COMPONENT_TYPES (acc_componentType (byte_vec2 n))
            = Some \<lparr>ct_name = ''BYTE'', ct_size = 1, ct_array = Int8Array\<rparr>"
    and ts: "TYPE_SIZES (acc_type (byte_vec2 n)) = Some 2"
    and off: "byteOffset (byte_vec2 n) plain_view = 0"
    and count: "acc_count (byte_vec2 n) = n" for n
    by (simp_all add: byte_vec2_def plain_view_def COMPONENT_TYPES_def TYPE_SIZES_def byteOffset_def)
  have len: "length forty_two_bytes = 42" by (simp add: forty_two_bytes_def)
  have cover: "0 + n * (ct_size \<lparr>ct_name = ''BYTE'', ct_size = 1, ct_array = Int8Array\<rparr> * 2)
               \<le> length forty_two_bytes" if "n \<le> 21" for n
    using that by (simp add: len)
  from covered_groups [OF ct [of 21] _ cover [of 21]]
  obtain gs21 where g21: "groupValues \<lparr>ct_name = ''BYTE'', ct_size = 1, ct_array = Int8Array\<rparr>
       (Some 2) (take 42 forty_two_bytes) = Some (Inr gs21)" "length gs21 = 21"
    by auto
  from covered_groups [OF ct [of 20] _ cover [of 20]]
  obtain gs20 where g20: "groupValues \<lparr>ct_name = ''BYTE'', ct_size = 1, ct_array = Int8Array\<rparr>
       (Some 2) (take 40 forty_two_bytes) = Some (Inr gs20)" "length gs20 = 20"
    by auto
  have r21: "groupValues \<lparr>ct_name = ''BYTE'', ct_size = 1, ct_array = Int8Array\<rparr>
       (TYPE_SIZES (acc_type (byte_vec2 21)))
       (rawBytes \<lparr>ct_name = ''BYTE'', ct_size = 1, ct_array = Int8Array\<rparr>
          (TYPE_SIZES (acc_type (byte_vec2 21))) (byte_vec2 21) plain_view forty_two_bytes)
       = Some (Inr gs21)"
    using g21(1) by (simp add: ts rawBytes_Some off count)
  have r20: "groupValues \<lparr>ct_name = ''BYTE'', ct_size = 1, ct_array = Int8Array\<rparr>
       (TYPE_SIZES (acc_type (byte_vec2 20)))
       (rawBytes \<lparr>ct_name = ''BYTE'', ct_size = 1, ct_array = Int8Array\<rparr>
          (TYPE_SIZES (acc_type (byte_vec2 20))) (byte_vec2 20) plain_view forty_two_bytes)
       = Some (Inr gs20)"
    using g20(1) by (simp add: ts rawBytes_Some off count)
  note e21 = extractAccessorData_result [OF ct r21]
  note e20 = extractAccessorData_result [OF ct r20]
  have e21': "extractAccessorData exponential_1e21 (byte_vec2 21) (Some plain_view) forty_two_bytes = Some (Inr r)
              \<Longrightarrow> r_error r = None" for r
    using e21 g21(2) by auto
  have e20': "extractAccessorData exponential_1e21 (byte_vec2 20) (Some plain_view) forty_two_bytes = Some (Inr r)
              \<Longrightarrow> r_error r = None" for r
    using e20 g20(2) by auto
  from e21 obtain r1 where r1: "extractAccessorData exponential_1e21 (byte_vec2 21) (Some plain_view) forty_two_bytes = Some (Inr r1)"
    by simp
  from e20 obtain r0 where r0: "extractAccessorData exponential_1e21 (byte_vec2 20) (Some plain_view) forty_two_bytes = Some (Inr r0)"
    by simp
  from extractAccessorData_values_or_truncatedValues [OF r1 e21' [OF r1]] r21 g21(2) ct [of 21]
  have a: "r_truncatedValues r1 = Some (take 20 gs21) \<and> r_values r1 = None"
    by auto
  from extractAccessorData_values_or_truncatedValues [OF r0 e20' [OF r0]] r20 g20(2) ct [of 20]
  have b: "r_values r0 = Some gs20 \<and> r_truncatedValues r0 = None"
    by auto
  from r1 e21' [OF r1] g21(2) a r0 e20' [OF r0] g20(2) b show ?thesis by blast
qed

subsection \<open>Decimal notation\<close>

lemma of_char_digit: "n < 10 \<Longrightarrow> of_char (char_of (48 + n)) = 48 + (n :: nat)"
  by simp




declare toString_nat.simps [simp del]















subsection \<open>Unrecognized component type\<close>






subsection \<open>The byte window\<close>

text \<open>
  C4. For a recognized component type and shape, the bytes \<open>extractAccessorData\<close> reads
  are those of the window that starts at the buffer view's offset plus the accessor's
  offset (each 0 when absent) and has the length count * size * typeSize: \<open>rawBytes\<close>
  is the \<open>subarray\<close> of the buffer from that start to that start plus that length. It
  holds the bytes of the buffer from the start, as many as the window has and the buffer
  holds, which is the whole window when the buffer covers it, and the result is a
  function of \<open>rawBytes\<close>. In particular the one-float accessor at accessor offset 8 in
  the buffer view at offset 100 reads the bytes 108 to 111 of any buffer of at least 112
  bytes.
\<close>

theorem rawBytes_window:
  "(COMPONENT_TYPES (acc_componentType acc) = Some ct \<and> TYPE_SIZES (acc_type acc) = Some ts \<longrightarrow>
     (let start = (case bv_byteOffset bv of None \<Rightarrow> 0 | Some v \<Rightarrow> v)
                  + (case acc_byteOffset acc of None \<Rightarrow> 0 | Some v \<Rightarrow> v);
          len = acc_count acc * (ct_size ct * ts);
          raw = rawBytes ct (Some ts) acc bv buf in
      raw = subarray buf start (start + len) \<and>
      length raw = min len (length buf - start) \<and>
      (\<forall>i<length raw. raw ! i = buf ! (start + i)) \<and>
      (start + len \<le> length buf \<longrightarrow> length raw = len) \<and>
      (\<forall>buf'. rawBytes ct (Some ts) acc bv buf' = raw \<longrightarrow>
         extractAccessorData exponential acc (Some bv) buf' = extractAccessorData exponential acc (Some bv) buf))) \<and>
   (\<forall>b. 112 \<le> length b \<longrightarrow>
      rawBytes \<lparr>ct_name = ''FLOAT'', ct_size = 4, ct_array = Float32Array\<rparr> (Some 1)
        float_scalar view_at_100 b = [b ! 108, b ! 109, b ! 110, b ! 111] \<and>
      extractAccessorData exponential float_scalar (Some view_at_100) b =
        Some (Inr \<lparr>r_error = None, r_type = Some ''SCALAR'', r_componentType = Some ''FLOAT'',
          r_count = Some 1, r_min = None, r_max = None,
          r_values = Some [Bare (Float32 (word_of_nat
                       (littleEndian [b ! 108, b ! 109, b ! 110, b ! 111])))],
          r_truncatedValues = None\<rparr>))"
proof (intro conjI impI allI)
  assume h: "COMPONENT_TYPES (acc_componentType acc) = Some ct \<and> TYPE_SIZES (acc_type acc) = Some ts"
  have start: "(case bv_byteOffset bv of None \<Rightarrow> 0 | Some v \<Rightarrow> v)
                  + (case acc_byteOffset acc of None \<Rightarrow> 0 | Some v \<Rightarrow> v) = byteOffset acc bv"
    by (simp add: byteOffset_def)
  show "let start = (case bv_byteOffset bv of None \<Rightarrow> 0 | Some v \<Rightarrow> v)
                  + (case acc_byteOffset acc of None \<Rightarrow> 0 | Some v \<Rightarrow> v);
          len = acc_count acc * (ct_size ct * ts);
          raw = rawBytes ct (Some ts) acc bv buf in
      raw = subarray buf start (start + len) \<and>
      length raw = min len (length buf - start) \<and>
      (\<forall>i<length raw. raw ! i = buf ! (start + i)) \<and>
      (start + len \<le> length buf \<longrightarrow> length raw = len) \<and>
      (\<forall>buf'. rawBytes ct (Some ts) acc bv buf' = raw \<longrightarrow>
         extractAccessorData exponential acc (Some bv) buf' = extractAccessorData exponential acc (Some bv) buf)"
    unfolding Let_def start
  proof (intro conjI allI impI)
    show "rawBytes ct (Some ts) acc bv buf
          = subarray buf (byteOffset acc bv)
              (byteOffset acc bv + acc_count acc * (ct_size ct * ts))"
      by (simp add: rawBytes_def byteLength_def elementSize_def)
  next
    show "length (rawBytes ct (Some ts) acc bv buf)
          = min (acc_count acc * (ct_size ct * ts)) (length buf - byteOffset acc bv)"
      by (rule rawBytes_length)
  next
    fix i assume "i < length (rawBytes ct (Some ts) acc bv buf)"
    then show "rawBytes ct (Some ts) acc bv buf ! i = buf ! (byteOffset acc bv + i)"
      by (rule rawBytes_nth)
  next
    assume "byteOffset acc bv + acc_count acc * (ct_size ct * ts) \<le> length buf"
    then show "length (rawBytes ct (Some ts) acc bv buf) = acc_count acc * (ct_size ct * ts)"
      by (simp add: rawBytes_length)
  next
    fix buf' assume "rawBytes ct (Some ts) acc bv buf' = rawBytes ct (Some ts) acc bv buf"
    then show "extractAccessorData exponential acc (Some bv) buf' = extractAccessorData exponential acc (Some bv) buf"
      using h by (intro extractAccessorData_by_rawBytes [of ct "Some ts"]) simp_all
  qed
next
  fix b :: Buffer assume long: "112 \<le> length b"
  have ct: "COMPONENT_TYPES (acc_componentType float_scalar)
            = Some \<lparr>ct_name = ''FLOAT'', ct_size = 4, ct_array = Float32Array\<rparr>"
    and ts: "TYPE_SIZES (acc_type float_scalar) = Some 1"
    and off: "byteOffset float_scalar view_at_100 = 108"
    and count: "acc_count float_scalar = 1"
    by (simp_all add: float_scalar_def view_at_100_def COMPONENT_TYPES_def TYPE_SIZES_def
          byteOffset_def)
  have "drop 108 b = b ! 108 # b ! 109 # b ! 110 # b ! 111 # drop 112 b"
    using long by (simp add: Cons_nth_drop_Suc [symmetric])
  then show raw: "rawBytes \<lparr>ct_name = ''FLOAT'', ct_size = 4, ct_array = Float32Array\<rparr> (Some 1)
        float_scalar view_at_100 b = [b ! 108, b ! 109, b ! 110, b ! 111]"
    by (simp add: rawBytes_Some off count)
  have "groupValues \<lparr>ct_name = ''FLOAT'', ct_size = 4, ct_array = Float32Array\<rparr>
          (TYPE_SIZES (acc_type float_scalar))
          (rawBytes \<lparr>ct_name = ''FLOAT'', ct_size = 4, ct_array = Float32Array\<rparr>
             (TYPE_SIZES (acc_type float_scalar)) float_scalar view_at_100 b)
        = Some (Inr [Bare (Float32 (word_of_nat
                       (littleEndian [b ! 108, b ! 109, b ! 110, b ! 111])))])"
    unfolding ts raw
    by (simp add: groupValues_def newTypedArray_def BYTES_PER_ELEMENT_def element_def
          subarray_def groupLoop.simps)
  from extractAccessorData_result [OF ct this]
  show "extractAccessorData exponential float_scalar (Some view_at_100) b =
        Some (Inr \<lparr>r_error = None, r_type = Some ''SCALAR'', r_componentType = Some ''FLOAT'',
          r_count = Some 1, r_min = None, r_max = None,
          r_values = Some [Bare (Float32 (word_of_nat
                       (littleEndian [b ! 108, b ! 109, b ! 110, b ! 111])))],
          r_truncatedValues = None\<rparr>)"
    by (simp add: float_scalar_def)
qed

theorem rawBytes_window_witness:
  "COMPONENT_TYPES (acc_componentType short_vec2)
     = Some \<lparr>ct_name = ''SHORT'', ct_size = 2, ct_array = Int16Array\<rparr> \<and>
   TYPE_SIZES (acc_type short_vec2) = Some 2 \<and>
   3 + 8 \<le> length twelve_bytes \<and>
   rawBytes \<lparr>ct_name = ''SHORT'', ct_size = 2, ct_array = Int16Array\<rparr> (Some 2)
     short_vec2 view_at_1 twelve_bytes = [1, 0, 0xFF, 0xFF, 3, 0, 4, 0] \<and>
   length (rawBytes \<lparr>ct_name = ''SHORT'', ct_size = 2, ct_array = Int16Array\<rparr> (Some 2)
     short_vec2 view_at_1 twelve_bytes) = 8 \<and>
   112 \<le> length float_one_at_108 \<and>
   rawBytes \<lparr>ct_name = ''FLOAT'', ct_size = 4, ct_array = Float32Array\<rparr> (Some 1)
     float_scalar view_at_100 float_one_at_108 = [0, 0, 0x80, 0x3F] \<and>
   extractAccessorData exponential_1e21 float_scalar (Some view_at_100) float_one_at_108 =
     Some (Inr \<lparr>r_error = None, r_type = Some ''SCALAR'', r_componentType = Some ''FLOAT'',
       r_count = Some 1, r_min = None, r_max = None,
       r_values = Some [Bare (Float32 0x3F800000)], r_truncatedValues = None\<rparr>)"
proof -
  have h1: "COMPONENT_TYPES (acc_componentType short_vec2)
     = Some \<lparr>ct_name = ''SHORT'', ct_size = 2, ct_array = Int16Array\<rparr>"
    by (simp add: short_vec2_def COMPONENT_TYPES_def)
  have h2: "TYPE_SIZES (acc_type short_vec2) = Some 2"
    by (simp add: short_vec2_def TYPE_SIZES_def)
  have h3: "3 + 8 \<le> length twelve_bytes" by (simp add: twelve_bytes_def)
  have raw: "rawBytes \<lparr>ct_name = ''SHORT'', ct_size = 2, ct_array = Int16Array\<rparr> (Some 2)
     short_vec2 view_at_1 twelve_bytes = [1, 0, 0xFF, 0xFF, 3, 0, 4, 0]"
    by (simp add: rawBytes_Some byteOffset_def short_vec2_def view_at_1_def twelve_bytes_def)
  have long: "112 \<le> length float_one_at_108" by (simp add: float_one_at_108_def)
  have bytes: "float_one_at_108 ! 108 = 0" "float_one_at_108 ! 109 = 0"
    "float_one_at_108 ! 110 = 0x80" "float_one_at_108 ! 111 = 0x3F"
    by (simp_all add: float_one_at_108_def nth_append)
  note t = rawBytes_window [of short_vec2
      "\<lparr>ct_name = ''SHORT'', ct_size = 2, ct_array = Int16Array\<rparr>" 2 view_at_1 twelve_bytes]
  from t h1 h2 h3
  have len: "length (rawBytes \<lparr>ct_name = ''SHORT'', ct_size = 2, ct_array = Int16Array\<rparr> (Some 2)
     short_vec2 view_at_1 twelve_bytes) = 8"
    by (simp add: Let_def short_vec2_def view_at_1_def twelve_bytes_def subarray_def)
  from t long
  have ex: "rawBytes \<lparr>ct_name = ''FLOAT'', ct_size = 4, ct_array = Float32Array\<rparr> (Some 1)
        float_scalar view_at_100 float_one_at_108
          = [float_one_at_108 ! 108, float_one_at_108 ! 109, float_one_at_108 ! 110,
             float_one_at_108 ! 111] \<and>
      extractAccessorData exponential_1e21 float_scalar (Some view_at_100) float_one_at_108 =
        Some (Inr \<lparr>r_error = None, r_type = Some ''SCALAR'', r_componentType = Some ''FLOAT'',
          r_count = Some 1, r_min = None, r_max = None,
          r_values = Some [Bare (Float32 (word_of_nat
                       (littleEndian [float_one_at_108 ! 108, float_one_at_108 ! 109,
                          float_one_at_108 ! 110, float_one_at_108 ! 111])))],
          r_truncatedValues = None\<rparr>)"
    by blast
  from h1 h2 h3 raw len long ex show ?thesis
    unfolding bytes by simp
qed

subsection \<open>A window that runs past the end of the buffer\<close>

lemma rawBytes_clamped:
  assumes "length buf < byteOffset acc bv + acc_count acc * (ct_size ct * ts)"
  shows "rawBytes ct (Some ts) acc bv buf = drop (byteOffset acc bv) buf"
  using assms by (simp add: rawBytes_Some)

text \<open>
  C5, as amended. The claim: when the computed window extends past the end of the buffer,
  the decoder reads nothing outside the buffer and does not fail, for every recognized
  component type and shape. The window is clamped: \<open>rawBytes\<close> holds the bytes from the
  start offset to the end of the buffer. When their number is a multiple of the byte
  width of the component type (always, for the two one-byte component types), the result
  has no error, and its groups are those of the components that fit in the clamped
  window, in order: groups of \<open>n\<close> components each, the last one shorter when the number
  of components is not a multiple of \<open>n\<close>; the first 20 of them under \<open>truncatedValues\<close>
  when there are more than 20, all of them under \<open>values\<close> otherwise. When the number of
  bytes is not a multiple of the width, the typed-array constructor raises a range error.
\<close>

theorem extractAccessorData_clamped_window:
  assumes "(acc_componentType acc, width, a) \<in> {(5120, 1, Int8Array), (5121, 1, Uint8Array),
             (5122, 2, Int16Array), (5123, 2, Uint16Array), (5125, 4, Uint32Array),
             (5126, 4, Float32Array)}"
    and "(acc_type acc, n) \<in> {(''SCALAR'', 1), (''VEC2'', 2), (''VEC3'', 3), (''VEC4'', 4),
             (''MAT2'', 4), (''MAT3'', 9), (''MAT4'', 16)}"
    and "start = (case bv_byteOffset bv of None \<Rightarrow> 0 | Some v \<Rightarrow> v)
                 + (case acc_byteOffset acc of None \<Rightarrow> 0 | Some v \<Rightarrow> v)"
    and "length buf < start + acc_count acc * (width * n)"
  shows "let raw = drop start buf;
             gs = map (toGroup n)
                    (chunk n (map (component a width buf start) [0 ..< length raw div width])) in
           (\<exists>ct. COMPONENT_TYPES (acc_componentType acc) = Some ct \<and>
                 rawBytes ct (Some n) acc bv buf = raw) \<and>
           (length raw mod width \<noteq> 0 \<longrightarrow>
              extractAccessorData exponential acc (Some bv) buf = Some (Inl RangeError)) \<and>
           (length raw mod width = 0 \<longrightarrow>
              (\<exists>r. extractAccessorData exponential acc (Some bv) buf = Some (Inr r) \<and>
                 r_error r = None \<and>
                 (if 20 < length gs
                  then r_truncatedValues r = Some (take 20 gs) \<and> r_values r = None
                  else r_values r = Some gs \<and> r_truncatedValues r = None)))"
proof -
  from COMPONENT_TYPES_entry [OF assms(1)] obtain ct where
    ct: "COMPONENT_TYPES (acc_componentType acc) = Some ct"
    and w: "ct_size ct = width" and a: "ct_array ct = a"
    by blast
  from TYPE_SIZES_entry [OF assms(2)]
  have ts: "TYPE_SIZES (acc_type acc) = Some n" by simp
  then have pos: "0 < n" by (rule TYPE_SIZES_Some)
  have start: "byteOffset acc bv = start" by (simp add: byteOffset_def assms(3))
  have short: "length buf < byteOffset acc bv + acc_count acc * (ct_size ct * n)"
    using assms(4) by (simp add: start w)
  let ?raw = "drop start buf"
  let ?gs = "map (toGroup n)
               (chunk n (map (component a width buf start) [0 ..< length ?raw div width]))"
  have raw: "rawBytes ct (Some n) acc bv buf = ?raw"
    using rawBytes_clamped [OF short] by (simp only: start)
  have window: "\<exists>ct. COMPONENT_TYPES (acc_componentType acc) = Some ct \<and>
                 rawBytes ct (Some n) acc bv buf = ?raw"
    using ct raw by blast
  have bad: "extractAccessorData exponential acc (Some bv) buf = Some (Inl RangeError)"
    if "length ?raw mod width \<noteq> 0"
  proof -
    from that have "length (rawBytes ct (Some n) acc bv buf) mod ct_size ct \<noteq> 0"
      unfolding raw w .
    from groupValues_misaligned [OF ct this, of "Some n"]
    show ?thesis
      by (intro extractAccessorData_error [OF ct]) (simp add: ts)
  qed
  have good: "\<exists>r. extractAccessorData exponential acc (Some bv) buf = Some (Inr r) \<and>
                 r_error r = None \<and>
                 (if 20 < length ?gs
                  then r_truncatedValues r = Some (take 20 ?gs) \<and> r_values r = None
                  else r_values r = Some ?gs \<and> r_truncatedValues r = None)"
    if aligned: "length ?raw mod width = 0"
  proof -
    have taken: "take (acc_count acc * (width * n)) (drop start buf) = ?raw"
      using raw by (simp only: rawBytes_Some start w)
    have "length (take (acc_count acc * (ct_size ct * n)) (drop start buf)) mod ct_size ct = 0"
      using aligned unfolding w taken .
    from groupValues_window [OF ct pos this]
    have "groupValues ct (Some n) ?raw = Some (Inr ?gs)"
      by (simp only: w a taken)
    then have "groupValues ct (TYPE_SIZES (acc_type acc))
                 (rawBytes ct (TYPE_SIZES (acc_type acc)) acc bv buf) = Some (Inr ?gs)"
      by (simp only: ts raw)
    from extractAccessorData_result [OF ct this, of exponential]
    show ?thesis
      by (cases "20 < length ?gs") simp_all
  qed
  show ?thesis
    unfolding Let_def
    apply (intro conjI impI)
      apply (rule window)
     apply (erule bad)
    apply (erule good)
    done
qed

text \<open>
  One 32-bit float at offset 8 of an 11-byte buffer, and two pairs of 16-bit integers at
  offset 3 of a 9-byte buffer.
\<close>

theorem extractAccessorData_clamped_window_witness:
  "length eleven_bytes < 8 + acc_count float_scalar * (4 * 1) \<and>
   length (drop 8 eleven_bytes) mod 4 \<noteq> 0 \<and>
   extractAccessorData exponential_1e21 float_scalar (Some plain_view) eleven_bytes
     = Some (Inl RangeError) \<and>
   length nine_bytes < 3 + acc_count short_vec2 * (2 * 2) \<and>
   length (drop 3 nine_bytes) mod 2 = 0 \<and>
   (\<exists>r. extractAccessorData exponential_1e21 short_vec2 (Some view_at_1) nine_bytes
          = Some (Inr r) \<and> r_error r = None \<and>
        r_values r = Some (map (toGroup 2)
          (chunk 2 (map (component Int16Array 2 nine_bytes 3) [0 ..< 3]))) \<and>
        r_truncatedValues r = None) \<and>
   extractAccessorData exponential_1e21 short_vec2 (Some view_at_1) nine_bytes =
     Some (Inr \<lparr>r_error = None, r_type = Some ''VEC2'', r_componentType = Some ''SHORT'',
       r_count = Some 2, r_min = None, r_max = None,
       r_values = Some [Group [Integer 1, Integer (- 1)], Group [Integer 3]],
       r_truncatedValues = None\<rparr>)"
proof -
  have f1: "(acc_componentType float_scalar, 4, Float32Array) \<in> {(5120, 1, Int8Array),
             (5121, 1, Uint8Array), (5122, 2, Int16Array), (5123, 2, Uint16Array),
             (5125, 4, Uint32Array), (5126, 4, Float32Array)}"
    by (simp add: float_scalar_def)
  have f2: "(acc_type float_scalar, 1) \<in> {(''SCALAR'', 1), (''VEC2'', 2), (''VEC3'', 3),
             (''VEC4'', 4), (''MAT2'', 4), (''MAT3'', 9), (''MAT4'', 16)}"
    by (simp add: float_scalar_def)
  have f3: "8 = (case bv_byteOffset plain_view of None \<Rightarrow> 0 | Some v \<Rightarrow> v)
                 + (case acc_byteOffset float_scalar of None \<Rightarrow> 0 | Some v \<Rightarrow> v)"
    by (simp add: float_scalar_def plain_view_def)
  have f4: "length eleven_bytes < 8 + acc_count float_scalar * (4 * 1)"
    by (simp add: float_scalar_def eleven_bytes_def)
  have f5: "length (drop 8 eleven_bytes) mod 4 \<noteq> 0" by (simp add: eleven_bytes_def)
  from extractAccessorData_clamped_window [OF f1 f2 f3 f4, of exponential_1e21] f5
  have a: "extractAccessorData exponential_1e21 float_scalar (Some plain_view) eleven_bytes
           = Some (Inl RangeError)"
    by (simp add: Let_def)
  have s1: "(acc_componentType short_vec2, 2, Int16Array) \<in> {(5120, 1, Int8Array),
             (5121, 1, Uint8Array), (5122, 2, Int16Array), (5123, 2, Uint16Array),
             (5125, 4, Uint32Array), (5126, 4, Float32Array)}"
    by (simp add: short_vec2_def)
  have s2: "(acc_type short_vec2, 2) \<in> {(''SCALAR'', 1), (''VEC2'', 2), (''VEC3'', 3),
             (''VEC4'', 4), (''MAT2'', 4), (''MAT3'', 9), (''MAT4'', 16)}"
    by (simp add: short_vec2_def)
  have s3: "3 = (case bv_byteOffset view_at_1 of None \<Rightarrow> 0 | Some v \<Rightarrow> v)
                 + (case acc_byteOffset short_vec2 of None \<Rightarrow> 0 | Some v \<Rightarrow> v)"
    by (simp add: short_vec2_def view_at_1_def)
  have s4: "length nine_bytes < 3 + acc_count short_vec2 * (2 * 2)"
    by (simp add: short_vec2_def nine_bytes_def)
  have s5: "length (drop 3 nine_bytes) mod 2 = 0" and s6: "length (drop 3 nine_bytes) div 2 = 3"
    and s7: "(length nine_bytes - 3) div 2 = 3" and s8: "(length nine_bytes - 3) mod 2 = 0"
    by (simp_all add: nine_bytes_def)
  have three: "length (chunk 2 (map (component Int16Array 2 nine_bytes 3) [0 ..< 3])) \<le> 20"
    by (simp add: upt_rec chunk_step)
  from extractAccessorData_clamped_window [OF s1 s2 s3 s4, of exponential_1e21] s5 three
  have b: "\<exists>r. extractAccessorData exponential_1e21 short_vec2 (Some view_at_1) nine_bytes
          = Some (Inr r) \<and> r_error r = None \<and>
        r_values r = Some (map (toGroup 2)
          (chunk 2 (map (component Int16Array 2 nine_bytes 3) [0 ..< 3]))) \<and>
        r_truncatedValues r = None"
    by (simp add: Let_def s6 s7 s8)
  have c: "extractAccessorData exponential_1e21 short_vec2 (Some view_at_1) nine_bytes =
     Some (Inr \<lparr>r_error = None, r_type = Some ''VEC2'', r_componentType = Some ''SHORT'',
       r_count = Some 2, r_min = None, r_max = None,
       r_values = Some [Group [Integer 1, Integer (- 1)], Group [Integer 3]],
       r_truncatedValues = None\<rparr>)"
    by (simp add: short_vec2_def view_at_1_def nine_bytes_def decode_eval)
  from f4 f5 a s4 s5 b c show ?thesis by blast
qed

text \<open>
  One 32-bit float at offset 8 of an 11-byte buffer: the window is clamped to 3 bytes, and
  the decode fails.
\<close>

theorem extractAccessorData_misaligned_counterexample:
  "COMPONENT_TYPES (acc_componentType float_scalar)
     = Some \<lparr>ct_name = ''FLOAT'', ct_size = 4, ct_array = Float32Array\<rparr> \<and>
   TYPE_SIZES (acc_type float_scalar) = Some 1 \<and>
   length eleven_bytes < byteOffset float_scalar plain_view + acc_count float_scalar * (4 * 1) \<and>
   extractAccessorData exponential_1e21 float_scalar (Some plain_view) eleven_bytes = Some (Inl RangeError)"
  by (simp add: float_scalar_def plain_view_def eleven_bytes_def decode_eval)

subsection \<open>Unrecognized shape\<close>

text \<open>
  C10. For an accessor with a recognized component type and a shape that is not one of
  the seven of the table, the byte window is empty, and \<open>extractAccessorData\<close> returns a
  result without error field: type, component-type name, count, min and max echoed, and
  \<open>values\<close> the empty sequence.
\<close>

theorem extractAccessorData_unrecognized_shape:
  assumes "COMPONENT_TYPES (acc_componentType acc) = Some ct"
    and "acc_type acc \<notin> {''SCALAR'', ''VEC2'', ''VEC3'', ''VEC4'', ''MAT2'', ''MAT3'', ''MAT4''}"
  shows "rawBytes ct (TYPE_SIZES (acc_type acc)) acc bv buf = [] \<and>
         extractAccessorData exponential acc (Some bv) buf =
           Some (Inr \<lparr>r_error = None, r_type = Some (acc_type acc),
             r_componentType = Some (ct_name ct), r_count = Some (acc_count acc),
             r_min = acc_min acc, r_max = acc_max acc,
             r_values = Some [], r_truncatedValues = None\<rparr>)"
proof -
  from assms(2) have none: "TYPE_SIZES (acc_type acc) = None"
    by (simp add: TYPE_SIZES_None_iff)
  have raw: "rawBytes ct (TYPE_SIZES (acc_type acc)) acc bv buf = []"
    by (simp add: none rawBytes_None)
  have "groupValues ct (TYPE_SIZES (acc_type acc))
              (rawBytes ct (TYPE_SIZES (acc_type acc)) acc bv buf) = Some (Inr [])"
    unfolding raw by (simp add: groupValues_def newTypedArray_def Let_def none groupLoop_None)
  from extractAccessorData_result [OF assms(1) this] raw show ?thesis by simp
qed

theorem extractAccessorData_unrecognized_shape_witness:
  "COMPONENT_TYPES (acc_componentType float_vec5)
     = Some \<lparr>ct_name = ''FLOAT'', ct_size = 4, ct_array = Float32Array\<rparr> \<and>
   acc_type float_vec5 \<notin> {''SCALAR'', ''VEC2'', ''VEC3'', ''VEC4'', ''MAT2'', ''MAT3'', ''MAT4''} \<and>
   extractAccessorData exponential_1e21 float_vec5 (Some view_at_1) twelve_bytes =
     Some (Inr \<lparr>r_error = None, r_type = Some ''VEC5'', r_componentType = Some ''FLOAT'',
       r_count = Some 3, r_min = None, r_max = None,
       r_values = Some [], r_truncatedValues = None\<rparr>)"
proof -
  have h1: "COMPONENT_TYPES (acc_componentType float_vec5)
     = Some \<lparr>ct_name = ''FLOAT'', ct_size = 4, ct_array = Float32Array\<rparr>"
    by (simp add: float_vec5_def COMPONENT_TYPES_def)
  have h2: "acc_type float_vec5
            \<notin> {''SCALAR'', ''VEC2'', ''VEC3'', ''VEC4'', ''MAT2'', ''MAT3'', ''MAT4''}"
    by (simp add: float_vec5_def)
  from h1 h2 extractAccessorData_unrecognized_shape [OF h1 h2, of view_at_1 twelve_bytes]
  show ?thesis by (simp add: float_vec5_def)
qed

end
